theory Spec2Isabelle
  imports Complex_Main "HOL-Library.Sublist"
begin

section \<open>Python strings and exceptions\<close>

text \<open>
  Strings are lists of 8-bit characters. \<open>str.lower()\<close> is modelled on the ASCII
  letters, which is all the format names and extension patterns of the program use.
  \<open>sub in s\<close> is the substring test.
\<close>

definition lower_char :: "char \<Rightarrow> char" where
  "lower_char c =
     (case map_of (zip ''ABCDEFGHIJKLMNOPQRSTUVWXYZ'' ''abcdefghijklmnopqrstuvwxyz'') c of
        Some d \<Rightarrow> d
      | None \<Rightarrow> c)"

definition str_lower :: "string \<Rightarrow> string" where
  "str_lower s = map lower_char s"

fun str_in :: "string \<Rightarrow> string \<Rightarrow> bool" where
  "str_in sub [] = (sub = [])"
| "str_in sub (c # cs) = (prefix sub (c # cs) \<or> str_in sub cs)"

text \<open>
  A raised Python exception is a value: its class and its message (\<open>str(e)\<close>).
\<close>

datatype exc =
    ValueError string
  | ValidationError "string list"
  | ZeroDivisionError
  | OverflowError
  | TypeError string
  | Exc string

fun exc_str :: "exc \<Rightarrow> string" where
  "exc_str (ValueError m) = m"
| "exc_str (ValidationError fs) = concat fs"
| "exc_str ZeroDivisionError = ''division by zero''"
| "exc_str OverflowError = ''integer division result too large for a float''"
| "exc_str (TypeError m) = m"
| "exc_str (Exc m) = m"

section \<open>The Image model (src/models/image.py)\<close>

record image =
  url :: string
  width :: int
  height :: int
  size :: int
  format :: string
  project_id :: int

definition valid_formats :: "string list" where
  "valid_formats = [''jpg'', ''jpeg'', ''png'', ''gif'', ''webp'', ''svg'']"

text \<open>\<open>Image.validate_format\<close>: raises \<open>ValueError\<close> or returns the lowercased value.\<close>

definition validate_format :: "string \<Rightarrow> exc + string" where
  "validate_format v =
     (if str_lower v \<notin> set valid_formats
      then Inl (ValueError (''Image format must be one of [jpg, jpeg, png, gif, webp, svg], got: '' @ v))
      else Inr (str_lower v))"

text \<open>
  Constructing an \<open>Image\<close>: pydantic checks every field, collects the fields that fail
  and raises one \<open>ValidationError\<close> naming them, or returns the model with the
  validators' results stored. The \<open>HttpUrl\<close> parser is pydantic's; it is the parameter
  \<open>http_url\<close>, returning the normalised URL or \<open>None\<close>.
\<close>

definition Image_init :: "(string \<Rightarrow> string option) \<Rightarrow> image \<Rightarrow> exc + image" where
  "Image_init http_url raw =
     (let errs =
            (if http_url (url raw) = None then [''url''] else [])
          @ (if width raw > 0 then [] else [''width''])
          @ (if height raw > 0 then [] else [''height''])
          @ (case validate_format (format raw) of Inl e \<Rightarrow> [''format''] | Inr f \<Rightarrow> [])
      in if errs \<noteq> [] then Inl (ValidationError errs)
         else Inr (raw\<lparr>url := the (http_url (url raw)),
                       format := str_lower (format raw)\<rparr>))"

text \<open>
  Python's true division of two integers, \<open>a / b\<close>: it raises \<open>ZeroDivisionError\<close>
  on a zero divisor and \<open>OverflowError\<close> when the quotient rounds to a float beyond
  the largest one, that is from \<open>2^1024 - 2^970\<close> on in absolute value. Otherwise it
  returns the float nearest to the quotient; the value kept here is the quotient itself.
\<close>

definition float_overflow_bound :: real where
  "float_overflow_bound = 2 ^ 1024 - 2 ^ 970"

definition py_truediv :: "int \<Rightarrow> int \<Rightarrow> exc + real" where
  "py_truediv a b =
     (if b = 0 then Inl ZeroDivisionError
      else if float_overflow_bound \<le> \<bar>real_of_int a / real_of_int b\<bar> then Inl OverflowError
      else Inr (real_of_int a / real_of_int b))"

text \<open>\<open>Image.aspect_ratio\<close>: \<open>self.width / self.height\<close>.\<close>

definition aspect_ratio :: "image \<Rightarrow> exc + real" where
  "aspect_ratio img = py_truediv (width img) (height img)"

section \<open>ImageExtractor.extract_format (src/extractors/image.py)\<close>

definition extract_format :: "string \<Rightarrow> string" where
  "extract_format u =
     (let url_lower = str_lower u in
      if str_in ''.jpg'' url_lower \<or> str_in ''.jpeg'' url_lower then ''jpg''
      else if str_in ''.png'' url_lower then ''png''
      else if str_in ''.gif'' url_lower then ''gif''
      else if str_in ''.webp'' url_lower then ''webp''
      else if str_in ''.svg'' url_lower then ''svg''
      else ''jpg'')"

section \<open>ImagePipeline (src/storage/image_pipeline.py)\<close>

record download_result =
  success :: bool
  result_url :: string
  local_path :: "string option"
  error_message :: "string option"

record response =
  status_code :: int
  content :: string

text \<open>
  The local disk as the pipeline sees it: the directories made and the files written.
\<close>

record disk =
  dirs :: "string set"
  files :: "string \<rightharpoonup> string"

text \<open>
  What the pipeline calls and does not define: the standard library (\<open>hashlib.md5\<close>
  with \<open>hexdigest\<close>, \<open>urlparse(url).path\<close>, joining a directory and a file name
  with \<open>Path\<close>), and the outcome of each I/O step (an exception or none). Every
  exception here derives from \<open>Exception\<close>.
\<close>

record env =
  md5_hexdigest :: "string \<Rightarrow> string"
  urlparse_path :: "string \<Rightarrow> exc + string"
  path_join :: "string \<Rightarrow> string \<Rightarrow> string"
  mkdir_parents :: "string \<Rightarrow> exc option"
  http_get :: "string \<Rightarrow> exc + response"
  raise_for_status :: "response \<Rightarrow> exc option"
  open_wb :: "string \<Rightarrow> exc option"
  write_bytes :: "string \<Rightarrow> string \<Rightarrow> exc option"
  close_file :: "string \<Rightarrow> exc option"
  aclose :: "string \<Rightarrow> exc option"

subsection \<open>\<open>Path(path).suffix\<close> on POSIX paths\<close>

text \<open>\<open>str.split(sep)\<close> for a one-character separator.\<close>

fun split_sep :: "char \<Rightarrow> string \<Rightarrow> string list" where
  "split_sep c [] = [[]]"
| "split_sep c (x # xs) =
     (if x = c then [] # split_sep c xs
      else (case split_sep c xs of
              [] \<Rightarrow> [[x]]
            | w # ws \<Rightarrow> (x # w) # ws))"

text \<open>
  \<open>PurePath.name\<close>: the last component of the path, where empty components and
  \<open>.\<close> components are dropped by the parser; the empty string when none is left.
\<close>

definition path_name :: "string \<Rightarrow> string" where
  "path_name p =
     (let parts = filter (\<lambda>x. x \<noteq> [] \<and> x \<noteq> ''.'') (split_sep CHR ''/'' p)
      in if parts = [] then [] else last parts)"

text \<open>\<open>str.rfind\<close> for one character: the highest index, or -1.\<close>

definition rfind :: "char \<Rightarrow> string \<Rightarrow> int" where
  "rfind c s =
     (if c \<in> set s
      then int (length s) - 1 - int (length (takeWhile (\<lambda>x. x \<noteq> c) (rev s)))
      else - 1)"

text \<open>
  \<open>PurePath.suffix\<close>: \<open>i = name.rfind('.')\<close>, then \<open>name[i:]\<close> if
  \<open>0 < i < len(name) - 1\<close>, else the empty string.
\<close>

definition path_suffix :: "string \<Rightarrow> string" where
  "path_suffix p =
     (let name = path_name p; i = rfind CHR ''.'' name
      in if 0 < i \<and> i < int (length name) - 1 then drop (nat i) name else [])"

subsection \<open>generate_filename\<close>

definition generate_filename :: "env \<Rightarrow> string \<Rightarrow> exc + string" where
  "generate_filename e u =
     (case urlparse_path e u of
        Inl x \<Rightarrow> Inl x
      | Inr path \<Rightarrow>
          (let extension = path_suffix path;
               extension = (if extension = [] then ''.jpg'' else extension);
               url_hash = md5_hexdigest e u
           in Inr (url_hash @ extension)))"

subsection \<open>download_image and download_many\<close>

text \<open>\<open>try: body finally: f\<close>: an exception of \<open>f\<close> replaces the outcome of the body.\<close>

definition finally_do :: "exc option \<Rightarrow> exc + 'a \<Rightarrow> exc + 'a" where
  "finally_do f r = (case f of Some x \<Rightarrow> Inl x | None \<Rightarrow> r)"

text \<open>
  The body of the \<open>try\<close> in \<open>download_image\<close>: the local path on success, the
  exception otherwise, and the disk as the steps that ran have left it. Opening with
  mode \<open>wb\<close> truncates the file before the write.
\<close>

definition save_response :: "env \<Rightarrow> string \<Rightarrow> response \<Rightarrow> disk \<Rightarrow> (exc + unit) \<times> disk" where
  "save_response e lp resp d =
     (case raise_for_status e resp of
        Some x \<Rightarrow> (Inl x, d)
      | None \<Rightarrow>
          (case open_wb e lp of
             Some x \<Rightarrow> (Inl x, d)
           | None \<Rightarrow>
               (let d1 = d\<lparr>files := (files d)(lp \<mapsto> [])\<rparr> in
                case write_bytes e lp (content resp) of
                  Some x \<Rightarrow> (finally_do (close_file e lp) (Inl x), d1)
                | None \<Rightarrow>
                    (finally_do (close_file e lp) (Inr ()),
                     d1\<lparr>files := (files d1)(lp \<mapsto> content resp)\<rparr>))))"

definition download_try :: "env \<Rightarrow> string \<Rightarrow> disk \<Rightarrow> string \<Rightarrow> (exc + string) \<times> disk" where
  "download_try e output_dir d u =
     (case mkdir_parents e output_dir of
        Some x \<Rightarrow> (Inl x, d)
      | None \<Rightarrow>
          (let d0 = d\<lparr>dirs := insert output_dir (dirs d)\<rparr> in
           case generate_filename e u of
             Inl x \<Rightarrow> (Inl x, d0)
           | Inr filename \<Rightarrow>
               (let lp = path_join e output_dir filename in
                case http_get e u of
                  Inl x \<Rightarrow> (finally_do (aclose e u) (Inl x), d0)
                | Inr resp \<Rightarrow>
                    (case save_response e lp resp d0 of
                       (Inl x, d1) \<Rightarrow> (finally_do (aclose e u) (Inl x), d1)
                     | (Inr _, d1) \<Rightarrow> (finally_do (aclose e u) (Inr lp), d1)))))"

text \<open>
  \<open>download_image\<close>: the \<open>except Exception\<close> turns every exception of the body into a
  result. The function's own outcome is kept as a sum, so that "does not raise" is a
  statement about it.
\<close>

definition download_image :: "env \<Rightarrow> string \<Rightarrow> disk \<Rightarrow> string \<Rightarrow> exc + (download_result \<times> disk)" where
  "download_image e output_dir d u =
     (case download_try e output_dir d u of
        (Inr lp, d') \<Rightarrow>
          Inr (\<lparr>success = True, result_url = u, local_path = Some lp,
                error_message = None\<rparr>, d')
      | (Inl x, d') \<Rightarrow>
          Inr (\<lparr>success = False, result_url = u, local_path = None,
                error_message = Some (exc_str x)\<rparr>, d'))"


text \<open>
  A concrete environment for evaluating the pipeline: every URL parses to the path
  \<open>/a/b.PNG\<close>, every request answers 200 with the body \<open>data\<close>, except that the
  URL \<open>bad\<close> is unreachable.
\<close>

definition demo_env :: env where
  "demo_env =
     \<lparr>md5_hexdigest = (\<lambda>u. ''h'' @ u),
      urlparse_path = (\<lambda>u. Inr ''/a/b.PNG''),
      path_join = (\<lambda>a b. a @ ''/'' @ b),
      mkdir_parents = (\<lambda>p. None),
      http_get = (\<lambda>u. if u = ''bad'' then Inl (Exc ''unreachable'')
                        else Inr \<lparr>status_code = 200, content = ''data''\<rparr>),
      raise_for_status = (\<lambda>r. None),
      open_wb = (\<lambda>p. None),
      write_bytes = (\<lambda>p c. None),
      close_file = (\<lambda>p. None),
      aclose = (\<lambda>u. None)\<rparr>"

section \<open>Scroll-to-load pagination (src/extractors/search.py, src/extractors/pinterest.py)\<close>

text \<open>
  The page as the scroll loops act on it: the scroll-advances issued, the items the
  listing shows, the clicks on a "Load More" button and the settle delays waited (ms).
  What the remote page does is given by \<open>page_env\<close>, indexed by the number of
  scroll-advances issued so far: whether the script evaluation raises, by how many
  items the listing grows, and whether a "Load More" button is found and can be
  clicked. A listing that never grows has \<open>growth = (\<lambda>k. 0)\<close>.
\<close>

record page =
  scrolls :: nat
  item_count :: nat
  clicks :: nat
  waited :: nat

record page_env =
  evaluate_scroll :: "nat \<Rightarrow> exc option"
  growth :: "nat \<Rightarrow> nat"
  load_more_button :: "nat \<Rightarrow> exc + bool"
  click_load_more :: "nat \<Rightarrow> exc option"
  click_growth :: "nat \<Rightarrow> nat"

text \<open>
  \<open>SearchExtractor.scroll_to_load_more\<close>: \<open>for i in range(scroll_count)\<close>. An
  exception of a step leaves the loop and the function; the outcome is the exception,
  if any, and the page.
\<close>

fun scroll_more_loop :: "page_env \<Rightarrow> nat \<Rightarrow> page \<Rightarrow> exc option \<times> page" where
  "scroll_more_loop e 0 p = (None, p)"
| "scroll_more_loop e (Suc k) p =
     (case evaluate_scroll e (scrolls p) of
        Some x \<Rightarrow> (Some x, p\<lparr>scrolls := Suc (scrolls p)\<rparr>)
      | None \<Rightarrow>
          (let p1 = p\<lparr>scrolls := Suc (scrolls p),
                      item_count := item_count p + growth e (scrolls p),
                      waited := waited p + 2000\<rparr>
           in case load_more_button e (scrolls p) of
                Inl x \<Rightarrow> (Some x, p1)
              | Inr False \<Rightarrow> scroll_more_loop e k p1
              | Inr True \<Rightarrow>
                  (case click_load_more e (scrolls p) of
                     Some x \<Rightarrow> (Some x, p1)
                   | None \<Rightarrow>
                       scroll_more_loop e k
                         (p1\<lparr>clicks := Suc (clicks p1),
                             item_count := item_count p1 + click_growth e (scrolls p),
                             waited := waited p1 + 2000\<rparr>))))"

definition scroll_to_load_more :: "page_env \<Rightarrow> int \<Rightarrow> page \<Rightarrow> exc option \<times> page" where
  "scroll_to_load_more e scroll_count p = scroll_more_loop e (nat scroll_count) p"

text \<open>
  \<open>PinterestPinExtractor._scroll_to_load\<close>: \<open>for _ in range(scrolls)\<close>, a scroll
  and a settle delay of 1500 ms.
\<close>

fun scroll_load_loop :: "page_env \<Rightarrow> nat \<Rightarrow> page \<Rightarrow> exc option \<times> page" where
  "scroll_load_loop e 0 p = (None, p)"
| "scroll_load_loop e (Suc k) p =
     (case evaluate_scroll e (scrolls p) of
        Some x \<Rightarrow> (Some x, p\<lparr>scrolls := Suc (scrolls p)\<rparr>)
      | None \<Rightarrow>
          scroll_load_loop e k
            (p\<lparr>scrolls := Suc (scrolls p),
               item_count := item_count p + growth e (scrolls p),
               waited := waited p + 1500\<rparr>))"

definition scroll_to_load :: "page_env \<Rightarrow> int \<Rightarrow> page \<Rightarrow> exc option \<times> page" where
  "scroll_to_load e n p = scroll_load_loop e (nat n) p"

section \<open>The collection loops\<close>

text \<open>\<open>xs[:n]\<close> for a Python integer \<open>n\<close>: a negative \<open>n\<close> counts from the end.\<close>

definition py_take :: "int \<Rightarrow> 'a list \<Rightarrow> 'a list" where
  "py_take n xs = (if 0 \<le> n then take (nat n) xs else take (length xs - nat (- n)) xs)"

subsection \<open>BehanceScraper.scrape_search (scripts/scrape_behance.py)\<close>

text \<open>
  The scraper object: the set \<open>processed_projects\<close>, and what the loop has done: the
  URLs \<open>scrape_project\<close> was called on, the errors printed, the rate-limiting sleeps.
  A listing is a list of project URLs, each with the outcome \<open>scrape_project\<close> has
  on it when it is called: an exception or none.
\<close>

record scraper =
  processed_projects :: "string set"
  calls :: "string list"
  printed_errors :: "exc list"
  sleeps :: nat

fun scrape_loop :: "nat \<Rightarrow> nat \<Rightarrow> (string \<times> exc option) list \<Rightarrow> scraper \<times> nat \<Rightarrow> scraper \<times> nat" where
  "scrape_loop n i [] (s, cnt) = (s, cnt)"
| "scrape_loop n i ((project_url, outcome) # rest) (s, cnt) =
     (if project_url \<in> processed_projects s then scrape_loop n (Suc i) rest (s, cnt)
      else
        (case outcome of
           None \<Rightarrow>
             scrape_loop n (Suc i) rest
               (s\<lparr>calls := calls s @ [project_url],
                   processed_projects := insert project_url (processed_projects s),
                   sleeps := (if i < n then Suc (sleeps s) else sleeps s)\<rparr>,
                Suc cnt)
         | Some x \<Rightarrow>
             scrape_loop n (Suc i) rest
               (s\<lparr>calls := calls s @ [project_url],
                   printed_errors := printed_errors s @ [x]\<rparr>,
                cnt)))"

text \<open>
  \<open>scrape_search\<close>: an exception of \<open>search_projects\<close> is not caught (the
  \<open>try\<close> has a \<open>finally\<close> only); the listing is cut to \<open>max_projects\<close>.
\<close>

definition scrape_search ::
  "(exc + (string \<times> exc option) list) \<Rightarrow> int \<Rightarrow> scraper \<Rightarrow> (exc + nat) \<times> scraper" where
  "scrape_search search_projects max_projects s =
     (case search_projects of
        Inl x \<Rightarrow> (Inl x, s)
      | Inr links \<Rightarrow>
          (let project_links = py_take max_projects links;
               (s', cnt) = scrape_loop (length project_links) 1 project_links (s, 0)
           in (Inr cnt, s')))"

subsection \<open>CronScraper.scrape_behance (cron_scraper.py)\<close>

text \<open>
  What scraping one project does in the cron scraper: it raises somewhere between the
  navigation and the saving of the image metadata, or it finds a number of images and
  downloads some of them. The statistics change only when images were found.
\<close>

datatype project_outcome = Raises exc | Found nat nat

record cron_stats =
  projects_scraped :: nat
  images_downloaded :: nat
  errors :: nat

record cron_run =
  stats :: cron_stats
  visited :: "string list"

fun cron_projects :: "(string \<times> project_outcome) list \<Rightarrow> cron_run \<Rightarrow> cron_run" where
  "cron_projects [] r = r"
| "cron_projects ((project_url, outcome) # rest) r =
     (let r1 = r\<lparr>visited := visited r @ [project_url]\<rparr> in
      case outcome of
        Raises x \<Rightarrow>
          cron_projects rest (r1\<lparr>stats := (stats r1)\<lparr>errors := Suc (errors (stats r1))\<rparr>\<rparr>)
      | Found images success_count \<Rightarrow>
          (if images \<noteq> 0
           then cron_projects rest
                  (r1\<lparr>stats := (stats r1)
                         \<lparr>projects_scraped := Suc (projects_scraped (stats r1)),
                          images_downloaded := images_downloaded (stats r1) + success_count\<rparr>\<rparr>)
           else cron_projects rest r1))"

text \<open>
  The outer loop over the configured search URLs: an exception of the search itself
  counts as one error and the next URL is taken.
\<close>

fun cron_urls :: "int \<Rightarrow> (exc + (string \<times> project_outcome) list) list \<Rightarrow> cron_run \<Rightarrow> cron_run" where
  "cron_urls max_projects [] r = r"
| "cron_urls max_projects (search # rest) r =
     (case search of
        Inl x \<Rightarrow>
          cron_urls max_projects rest (r\<lparr>stats := (stats r)\<lparr>errors := Suc (errors (stats r))\<rparr>\<rparr>)
      | Inr links \<Rightarrow>
          cron_urls max_projects rest (cron_projects (py_take max_projects links) r))"

subsection \<open>The board loop of PinterestScraper.scrape_profile (scrape_pinterest_images.py)\<close>

text \<open>
  What scraping one board does: it raises (navigation, extraction, the insert of the
  pins), or it finds a number of pins and downloads some of their images.
\<close>

datatype board_outcome = Board_raises exc | Pins nat nat

record pinterest_scraper =
  processed_boards :: "string set"
  board_calls :: "string list"
  boards_scraped :: nat
  pins_scraped :: nat
  pin_images_downloaded :: nat

fun scrape_boards :: "(string \<times> board_outcome) list \<Rightarrow> pinterest_scraper \<Rightarrow> pinterest_scraper" where
  "scrape_boards [] s = s"
| "scrape_boards ((board_url, outcome) # rest) s =
     (if board_url \<in> processed_boards s then scrape_boards rest s
      else
        (let s1 = s\<lparr>board_calls := board_calls s @ [board_url]\<rparr> in
         case outcome of
           Board_raises x \<Rightarrow> scrape_boards rest s1
         | Pins pins success_count \<Rightarrow>
             scrape_boards rest
               (s1\<lparr>processed_boards := insert board_url (processed_boards s1),
                    boards_scraped := Suc (boards_scraped s1),
                    pins_scraped := (if pins \<noteq> 0 then pins_scraped s1 + pins
                                     else pins_scraped s1),
                    pin_images_downloaded :=
                      (if pins \<noteq> 0 then pin_images_downloaded s1 + success_count
                       else pin_images_downloaded s1)\<rparr>)))"

text \<open>A page whose listing never grows, and that never raises.\<close>

definition never_grows :: page_env where
  "never_grows = \<lparr>evaluate_scroll = (\<lambda>k. None), growth = (\<lambda>k. 0),
     load_more_button = (\<lambda>k. Inr False), click_load_more = (\<lambda>k. None),
     click_growth = (\<lambda>k. 0)\<rparr>"

section \<open>Authentication (src/auth/pinterest_auth.py, scrape_pinterest_images.py)\<close>

text \<open>
  What the browser and the remote sites answer during a login is given by \<open>auth_env\<close>:
  for each step of the source that can fail, the exception it raises or its result.
  A selector query answers whether it returned an element.
\<close>

type_synonym cookie = "string \<times> string"

record browser_context =
  context_cookies :: "cookie list"

record auth_env =
  cookies_file_exists :: "string \<Rightarrow> exc + bool"
  load_cookies :: "string \<Rightarrow> exc + cookie list"
  add_cookies :: "cookie list \<Rightarrow> exc option"
  get_cookies :: "exc + cookie list"
  write_cookies :: "string \<Rightarrow> cookie list \<Rightarrow> exc option"
  goto_login :: "exc option"
  wait_for_selector :: "string \<Rightarrow> exc + bool"
  click_google :: "exc option"
  url_after_click :: string
  page_count :: nat
  popup_load_state :: "exc option"
  google_email_step :: "exc option"
  google_next :: "string \<Rightarrow> exc option"
  press_enter_email :: "exc option"
  google_password_step :: "exc option"
  google_signin :: "string \<Rightarrow> exc option"
  press_enter_password :: "exc option"
  popup_is_closed :: bool
  popup_close :: "exc option"
  url_after_google :: string
  query_selector :: "string \<Rightarrow> exc + bool"
  fill_input :: "string \<Rightarrow> exc option"
  click_submit :: "exc option"
  url_after_submit :: string

subsection \<open>login_with_cookies\<close>

text \<open>
  The whole body is in a \<open>try\<close> whose \<open>except Exception\<close> returns \<open>False\<close>. The
  function is given the browser context only, no page. Its outcome is kept as a sum, so
  that "does not raise" is a statement about it.
\<close>

definition login_with_cookies ::
  "auth_env \<Rightarrow> browser_context \<Rightarrow> string \<Rightarrow> (exc + bool) \<times> browser_context" where
  "login_with_cookies e c path =
     (case cookies_file_exists e path of
        Inl x \<Rightarrow> (Inr False, c)
      | Inr False \<Rightarrow> (Inr False, c)
      | Inr True \<Rightarrow>
          (case load_cookies e path of
             Inl x \<Rightarrow> (Inr False, c)
           | Inr cookies \<Rightarrow>
               (case add_cookies e cookies of
                  Some x \<Rightarrow> (Inr False, c)
                | None \<Rightarrow> (Inr True, c\<lparr>context_cookies := context_cookies c @ cookies\<rparr>))))"

subsection \<open>save_cookies\<close>

definition save_cookies :: "auth_env \<Rightarrow> string \<Rightarrow> exc + bool" where
  "save_cookies e path =
     (case get_cookies e of
        Inl x \<Rightarrow> Inr False
      | Inr cookies \<Rightarrow>
          (case write_cookies e path cookies of
             Some x \<Rightarrow> Inr False
           | None \<Rightarrow> Inr True))"

subsection \<open>login_with_google\<close>

definition google_selectors :: "string list" where
  "google_selectors =
     [''div[data-test-id=\"google-connect-button\"]'',
      ''button[data-provider=\"google\"]'',
      ''button:has-text(\"Continue with Google\")'',
      ''[aria-label*=\"Google\"]'']"

definition next_selectors :: "string list" where
  "next_selectors =
     [''#identifierNext button'',
      ''button:has-text(\"Next\")'',
      ''button[type=\"button\"]:has-text(\"Next\")'',
      ''[id=\"identifierNext\"]'']"

definition signin_selectors :: "string list" where
  "signin_selectors =
     [''#passwordNext button'',
      ''button:has-text(\"Next\")'',
      ''button[type=\"button\"]:has-text(\"Next\")'',
      ''[id=\"passwordNext\"]'']"

definition logged_in_indicators :: "string list" where
  "logged_in_indicators =
     [''[data-test-id=\"header-profile\"]'',
      ''[aria-label*=\"Profile\"]'',
      ''div[data-test-id=\"user-menu\"]'']"

text \<open>
  The selector loops. Looking for the Google button: a selector that raises or returns
  nothing is passed over, the first element found ends the loop.
\<close>

fun find_button :: "(string \<Rightarrow> exc + bool) \<Rightarrow> string list \<Rightarrow> bool" where
  "find_button q [] = False"
| "find_button q (selector # rest) =
     (case q selector of
        Inl x \<Rightarrow> find_button q rest
      | Inr True \<Rightarrow> True
      | Inr False \<Rightarrow> find_button q rest)"

text \<open>Waiting for a button and clicking it: the first selector that does not raise.\<close>

fun click_first :: "(string \<Rightarrow> exc option) \<Rightarrow> string list \<Rightarrow> bool" where
  "click_first q [] = False"
| "click_first q (selector # rest) =
     (case q selector of
        Some x \<Rightarrow> click_first q rest
      | None \<Rightarrow> True)"

text \<open>
  The indicator loop is inside one \<open>try\<close>: an exception ends it, and is passed over.
\<close>

fun find_indicator :: "(string \<Rightarrow> exc + bool) \<Rightarrow> string list \<Rightarrow> bool" where
  "find_indicator q [] = False"
| "find_indicator q (indicator # rest) =
     (case q indicator of
        Inl x \<Rightarrow> False
      | Inr True \<Rightarrow> True
      | Inr False \<Rightarrow> find_indicator q rest)"

text \<open>
  The logged-in probe that ends \<open>login_with_google\<close>: the URL of the page, then the
  profile indicators.
\<close>

definition logged_in_probe :: "auth_env \<Rightarrow> bool" where
  "logged_in_probe e =
     (let current_url = url_after_google e in
      if str_in ''pinterest.com'' current_url \<and> \<not> str_in ''login'' (str_lower current_url)
      then True
      else if find_indicator (query_selector e) logged_in_indicators then True
      else if str_in ''pinterest.com'' current_url then True
      else False)"

text \<open>
  The identity provider's two steps, on the page or the popup that shows them. A
  failure to enter the identifier or the secret returns \<open>False\<close> at once; the other
  exceptions reach the outer \<open>except\<close>.
\<close>

definition google_flow :: "auth_env \<Rightarrow> bool \<Rightarrow> exc + bool" where
  "google_flow e popup =
     (case google_email_step e of
        Some x \<Rightarrow> Inr False
      | None \<Rightarrow>
          (case (if click_first (google_next e) next_selectors then None
                 else press_enter_email e) of
             Some x \<Rightarrow> Inl x
           | None \<Rightarrow>
               (case google_password_step e of
                  Some x \<Rightarrow> Inr False
                | None \<Rightarrow>
                    (case (if click_first (google_signin e) signin_selectors then None
                           else press_enter_password e) of
                       Some x \<Rightarrow> Inl x
                     | None \<Rightarrow>
                         (case (if popup \<and> \<not> popup_is_closed e then popup_close e
                                else None) of
                            Some x \<Rightarrow> Inl x
                          | None \<Rightarrow> Inr (logged_in_probe e))))))"

definition login_with_google_body :: "auth_env \<Rightarrow> exc + bool" where
  "login_with_google_body e =
     (case goto_login e of
        Some x \<Rightarrow> Inl x
      | None \<Rightarrow>
          (if \<not> find_button (wait_for_selector e) google_selectors then Inr False
           else
             (case click_google e of
                Some x \<Rightarrow> Inl x
              | None \<Rightarrow>
                  (if str_in ''accounts.google.com'' (url_after_click e)
                   then google_flow e False
                   else if 1 < page_count e
                   then (case popup_load_state e of
                           Some x \<Rightarrow> Inl x
                         | None \<Rightarrow> google_flow e True)
                   else Inr False))))"

definition login_with_google :: "auth_env \<Rightarrow> exc + bool" where
  "login_with_google e =
     (case login_with_google_body e of
        Inl x \<Rightarrow> Inr False
      | Inr b \<Rightarrow> Inr b)"

subsection \<open>login (the site's own form)\<close>

text \<open>
  A selector that returns nothing makes the next call on it raise; after a submit that
  leaves the URL on the login page the result is \<open>False\<close> whatever the error lookup does.
\<close>

definition login_body :: "auth_env \<Rightarrow> exc + bool" where
  "login_body e =
     (case goto_login e of
        Some x \<Rightarrow> Inl x
      | None \<Rightarrow>
          (case wait_for_selector e ''input[id=\"email\"]'' of
             Inl x \<Rightarrow> Inl x
           | Inr False \<Rightarrow> Inl (Exc ''NoneType has no attribute fill'')
           | Inr True \<Rightarrow>
               (case fill_input e ''input[id=\"email\"]'' of
                  Some x \<Rightarrow> Inl x
                | None \<Rightarrow>
                    (case wait_for_selector e ''input[id=\"password\"]'' of
                       Inl x \<Rightarrow> Inl x
                     | Inr False \<Rightarrow> Inl (Exc ''NoneType has no attribute fill'')
                     | Inr True \<Rightarrow>
                         (case fill_input e ''input[id=\"password\"]'' of
                            Some x \<Rightarrow> Inl x
                          | None \<Rightarrow>
                              (case wait_for_selector e ''button[type=\"submit\"]'' of
                                 Inl x \<Rightarrow> Inl x
                               | Inr False \<Rightarrow> Inl (Exc ''NoneType has no attribute click'')
                               | Inr True \<Rightarrow>
                                   (case click_submit e of
                                      Some x \<Rightarrow> Inl x
                                    | None \<Rightarrow>
                                        Inr (\<not> str_in ''login''
                                               (str_lower (url_after_submit e))))))))))"

definition login :: "auth_env \<Rightarrow> exc + bool" where
  "login e =
     (case login_body e of
        Inl x \<Rightarrow> Inr False
      | Inr b \<Rightarrow> Inr b)"

subsection \<open>The authentication phase of PinterestScraper.scrape_profile\<close>

datatype strategy = Session_restore | Federated | Direct

text \<open>
  \<open>attempts\<close> lists the strategies in the order they were called, each with what it
  returned; \<open>warned\<close> is the "Not logged in" warning. Python's truth test of an
  optional string: \<open>None\<close> and the empty string are false.
\<close>

record auth_outcome =
  logged_in :: bool
  attempts :: "(strategy \<times> bool) list"
  cookies_saved :: "bool option"
  warned :: bool
  context_after :: browser_context

definition truthy :: "string option \<Rightarrow> bool" where
  "truthy v = (case v of None \<Rightarrow> False | Some s \<Rightarrow> s \<noteq> [])"

definition bind_exc :: "exc + 'a \<Rightarrow> ('a \<Rightarrow> exc + 'b) \<Rightarrow> exc + 'b" where
  "bind_exc r f = (case r of Inl x \<Rightarrow> Inl x | Inr v \<Rightarrow> f v)"

definition authenticate ::
  "auth_env \<Rightarrow> string option \<Rightarrow> string option \<Rightarrow> string option \<Rightarrow> browser_context
     \<Rightarrow> exc + auth_outcome" where
  "authenticate e cookies_path email password c =
     bind_exc
       (if truthy cookies_path
        then (case login_with_cookies e c (the cookies_path) of
                (r, c1) \<Rightarrow> bind_exc r (\<lambda>b. Inr (b, [(Session_restore, b)], c1)))
        else Inr (False, [], c))
       (\<lambda>(l1, a1, c1).
          bind_exc
            (if \<not> l1 \<and> truthy email \<and> truthy password
             then bind_exc (login_with_google e)
                    (\<lambda>g. bind_exc (if \<not> g then bind_exc (login e)
                                                  (\<lambda>d. Inr (d, [(Federated, g), (Direct, d)]))
                                    else Inr (g, [(Federated, g)]))
                       (\<lambda>(l2, a2).
                          bind_exc (if l2 \<and> truthy cookies_path
                                    then bind_exc (save_cookies e (the cookies_path))
                                           (\<lambda>s. Inr (Some s))
                                    else Inr None)
                            (\<lambda>saved. Inr (l2, a1 @ a2, saved))))
             else Inr (l1, a1, None))
            (\<lambda>(l, a, saved).
               Inr \<lparr>logged_in = l, attempts = a, cookies_saved = saved,
                    warned = (\<not> l), context_after = c1\<rparr>))"

text \<open>
  A site that answers every step of every login form without raising, and for which
  no session is ever valid: the cookie file loads, but every login ends on the login
  page and no profile indicator shows.
\<close>

definition logged_out_site :: auth_env where
  "logged_out_site =
     \<lparr>cookies_file_exists = (\<lambda>p. Inr True),
      load_cookies = (\<lambda>p. Inr [(''session'', ''expired'')]),
      add_cookies = (\<lambda>cs. None),
      get_cookies = Inr [],
      write_cookies = (\<lambda>p cs. None),
      goto_login = None,
      wait_for_selector = (\<lambda>s. Inr True),
      click_google = None,
      url_after_click = ''https://accounts.google.com/signin'',
      page_count = 1,
      popup_load_state = None,
      google_email_step = None,
      google_next = (\<lambda>s. None),
      press_enter_email = None,
      google_password_step = None,
      google_signin = (\<lambda>s. None),
      press_enter_password = None,
      popup_is_closed = True,
      popup_close = None,
      url_after_google = ''https://accounts.google.com/signin/rejected'',
      query_selector = (\<lambda>s. Inr False),
      fill_input = (\<lambda>s. None),
      click_submit = None,
      url_after_submit = ''https://www.pinterest.com/login/''\<rparr>"

section \<open>The document store (src/storage/project_repository.py, src/storage/image_repository.py)\<close>

text \<open>
  A collection is the list of its documents, in insertion order, and the counter from
  which the store draws the \<open>_id\<close> of a new document. A document maps field names to
  values. The operations are the store's: \<open>insert_one\<close>, \<open>insert_many\<close> (which rejects
  an empty list), and \<open>update_one\<close> with an equality filter and a \<open>$set\<close> update,
  which changes the first matching document and, with \<open>upsert=True\<close>, inserts the
  filter's fields and the update when none matches.
\<close>

datatype bson =
    BInt int
  | BStr string
  | BDate int
  | BOid nat
  | BList "bson list"
  | BDoc "(string \<times> bson) list"

type_synonym document = "string \<rightharpoonup> bson"

record collection =
  docs :: "document list"
  next_oid :: nat

definition matches :: "(string \<times> bson) list \<Rightarrow> document \<Rightarrow> bool" where
  "matches flt d = list_all (\<lambda>(k, v). d k = Some v) flt"

definition insert_one :: "document \<Rightarrow> collection \<Rightarrow> collection" where
  "insert_one d c =
     (if d ''_id'' = None
      then c\<lparr>docs := docs c @ [d(''_id'' \<mapsto> BOid (next_oid c))], next_oid := Suc (next_oid c)\<rparr>
      else c\<lparr>docs := docs c @ [d]\<rparr>)"

definition insert_many :: "document list \<Rightarrow> collection \<Rightarrow> exc + collection" where
  "insert_many ds c =
     (if ds = [] then Inl (TypeError ''documents must be a non-empty list'')
      else Inr (fold insert_one ds c))"

fun update_first :: "('a \<Rightarrow> bool) \<Rightarrow> ('a \<Rightarrow> 'a) \<Rightarrow> 'a list \<Rightarrow> 'a list option" where
  "update_first P f [] = None"
| "update_first P f (d # ds) =
     (if P d then Some (f d # ds) else map_option ((#) d) (update_first P f ds))"

definition update_one ::
  "(string \<times> bson) list \<Rightarrow> document \<Rightarrow> bool \<Rightarrow> collection \<Rightarrow> collection" where
  "update_one flt set_fields upsert c =
     (case update_first (matches flt) (\<lambda>d. d ++ set_fields) (docs c) of
        Some ds \<Rightarrow> c\<lparr>docs := ds\<rparr>
      | None \<Rightarrow> if upsert then insert_one (map_of flt ++ set_fields) c else c)"

text \<open>
  The Project model and its \<open>model_dump()\<close>, with the URL as a string; timestamps are
  numbers.
\<close>

record project_stats =
  views :: int
  appreciations :: int
  comments :: int

record project =
  proj_id :: int
  title :: string
  description :: string
  proj_url :: string
  published_on :: int
  created_on :: int
  modified_on :: int
  proj_stats :: project_stats
  tags :: "string list"
  covers :: "(string \<times> string) list"
  owner_id :: int
  owner_username :: string

definition project_dict :: "project \<Rightarrow> document" where
  "project_dict p = map_of
     [(''id'', BInt (proj_id p)),
      (''title'', BStr (title p)),
      (''description'', BStr (description p)),
      (''url'', BStr (proj_url p)),
      (''published_on'', BDate (published_on p)),
      (''created_on'', BDate (created_on p)),
      (''modified_on'', BDate (modified_on p)),
      (''stats'', BDoc [(''views'', BInt (views (proj_stats p))),
                        (''appreciations'', BInt (appreciations (proj_stats p))),
                        (''comments'', BInt (comments (proj_stats p)))]),
      (''tags'', BList (map BStr (tags p))),
      (''covers'', BDoc (map (\<lambda>(k, v). (k, BStr v)) (covers p))),
      (''owner_id'', BInt (owner_id p)),
      (''owner_username'', BStr (owner_username p))]"

text \<open>\<open>ProjectRepository.upsert\<close>.\<close>

definition upsert :: "project \<Rightarrow> collection \<Rightarrow> collection" where
  "upsert p c = update_one [(''id'', BInt (proj_id p))] (project_dict p) True c"

definition image_dict :: "image \<Rightarrow> document" where
  "image_dict i = map_of
     [(''url'', BStr (url i)),
      (''width'', BInt (width i)),
      (''height'', BInt (height i)),
      (''size'', BInt (size i)),
      (''format'', BStr (format i)),
      (''project_id'', BInt (project_id i))]"

text \<open>\<open>ImageRepository.save_many\<close>: \<open>insert_many\<close> of the dumped images.\<close>

definition save_many :: "image list \<Rightarrow> collection \<Rightarrow> exc + collection" where
  "save_many images c = insert_many (map image_dict images) c"

text \<open>The number of stored documents whose \<open>id\<close> is \<open>i\<close>.\<close>

definition count_id :: "int \<Rightarrow> collection \<Rightarrow> nat" where
  "count_id i c = length (filter (\<lambda>d. d ''id'' = Some (BInt i)) (docs c))"

text \<open>Concrete values for evaluating the store.\<close>

definition empty_collection :: collection where
  "empty_collection = \<lparr>docs = [], next_oid = 0\<rparr>"

definition demo_image :: image where
  "demo_image = \<lparr>url = ''https://a.b/c.png'', width = 4, height = 2, size = 0,
                  format = ''png'', project_id = 42\<rparr>"

definition demo_project :: project where
  "demo_project =
     \<lparr>proj_id = 42, title = ''t'', description = ''d'', proj_url = ''https://a.b/gallery/42'',
      published_on = 1, created_on = 1, modified_on = 2,
      proj_stats = \<lparr>views = 3, appreciations = 2, comments = 1\<rparr>,
      tags = [''x''], covers = [], owner_id = 9, owner_username = ''o''\<rparr>"

section \<open>Properties of the Image model\<close>

lemma str_lower_valid_formats:
  "f \<in> set valid_formats \<Longrightarrow> str_lower f = f"
  by (auto simp: valid_formats_def str_lower_def lower_char_def)

text \<open>
  Claim C9, as the code has it. Every successfully constructed Image has a positive
  width, a positive height and a format among jpg, jpeg, png, gif, webp, svg, stored
  lowercased; hence its aspect ratio never divides by zero. The aspect ratio is the
  quotient of width and height when that is below the float range, and raises
  \<open>OverflowError\<close> otherwise: it is not defined on every valid Image.
\<close>

theorem Image_init_valid:
  assumes "Image_init http_url raw = Inr img"
  shows "width img > 0 \<and> height img > 0
       \<and> format img \<in> {''jpg'', ''jpeg'', ''png'', ''gif'', ''webp'', ''svg''}
       \<and> format img = str_lower (format raw)
       \<and> str_lower (format img) = format img
       \<and> aspect_ratio img \<noteq> Inl ZeroDivisionError
       \<and> aspect_ratio img =
           (if real_of_int (width img) / real_of_int (height img) < float_overflow_bound
            then Inr (real_of_int (width img) / real_of_int (height img))
            else Inl OverflowError)"
proof -
  from assms have w: "width raw > 0" and h: "height raw > 0"
    and f: "str_lower (format raw) \<in> set valid_formats"
    and img: "img = raw\<lparr>url := the (http_url (url raw)), format := str_lower (format raw)\<rparr>"
    by (auto simp: Image_init_def Let_def validate_format_def split: if_splits)
  from f have l: "str_lower (str_lower (format raw)) = str_lower (format raw)"
    by (rule str_lower_valid_formats)
  from w h have a: "\<bar>real_of_int (width raw)\<bar> = real_of_int (width raw)"
    "\<bar>real_of_int (height raw)\<bar> = real_of_int (height raw)"
    by simp_all
  have r: "aspect_ratio img =
           (if real_of_int (width raw) / real_of_int (height raw) < float_overflow_bound
            then Inr (real_of_int (width raw) / real_of_int (height raw))
            else Inl OverflowError)"
    using h img by (simp add: aspect_ratio_def py_truediv_def abs_divide a not_less)
  then have z: "aspect_ratio img \<noteq> Inl ZeroDivisionError"
    by simp
  from w h f l img r z show ?thesis
    by (simp add: valid_formats_def)
qed

theorem aspect_ratio_overflow_counterexample:
  "Image_init (\<lambda>u. Some u)
       \<lparr>url = ''https://a.b/c.png'', width = 10 ^ 400, height = 1, size = 0,
        format = ''png'', project_id = 7\<rparr>
     = Inr \<lparr>url = ''https://a.b/c.png'', width = 10 ^ 400, height = 1, size = 0,
            format = ''png'', project_id = 7\<rparr>
   \<and> aspect_ratio \<lparr>url = ''https://a.b/c.png'', width = 10 ^ 400, height = 1, size = 0,
            format = ''png'', project_id = 7\<rparr> = Inl OverflowError"
  by (simp add: Image_init_def validate_format_def valid_formats_def str_lower_def
      lower_char_def aspect_ratio_def py_truediv_def float_overflow_bound_def)

theorem Image_init_valid_witness:
  "Image_init (\<lambda>u. Some u)
       \<lparr>url = ''https://a.b/c.PNG'', width = 4, height = 2, size = 0,
        format = ''PNG'', project_id = 7\<rparr>
     = Inr \<lparr>url = ''https://a.b/c.PNG'', width = 4, height = 2, size = 0,
            format = ''png'', project_id = 7\<rparr>
   \<and> aspect_ratio \<lparr>url = ''https://a.b/c.PNG'', width = 4, height = 2, size = 0,
            format = ''png'', project_id = 7\<rparr> = Inr 2"
proof -
  have c: "Image_init (\<lambda>u. Some u)
       \<lparr>url = ''https://a.b/c.PNG'', width = 4, height = 2, size = 0,
        format = ''PNG'', project_id = 7\<rparr>
     = Inr \<lparr>url = ''https://a.b/c.PNG'', width = 4, height = 2, size = 0,
            format = ''png'', project_id = 7\<rparr>"
    by (simp add: Image_init_def validate_format_def valid_formats_def str_lower_def
        lower_char_def)
  have b: "(2::real) < float_overflow_bound"
    by (simp add: float_overflow_bound_def)
  from Image_init_valid [OF c] b
  have a: "aspect_ratio \<lparr>url = ''https://a.b/c.PNG'', width = 4, height = 2, size = 0,
            format = ''png'', project_id = 7\<rparr> = Inr 2"
    by (simp add: str_lower_def lower_char_def)
  show ?thesis
    by (intro conjI) (rule c, rule a)
qed

text \<open>
  Claim C10. For every URL, \<open>extract_format\<close> returns one of jpg, png, gif, webp,
  svg; it returns jpg when the lowercased URL holds none of the known extension
  substrings; and the Image format validator accepts the value unchanged.
\<close>

theorem extract_format_accepted:
  "extract_format u \<in> {''jpg'', ''png'', ''gif'', ''webp'', ''svg''}
   \<and> validate_format (extract_format u) = Inr (extract_format u)
   \<and> ((\<forall>e \<in> {''.jpg'', ''.jpeg'', ''.png'', ''.gif'', ''.webp'', ''.svg''}.
          \<not> str_in e (str_lower u)) \<longrightarrow> extract_format u = ''jpg'')"
  by (simp add: extract_format_def validate_format_def valid_formats_def str_lower_def
      lower_char_def Let_def)

theorem extract_format_accepted_witness:
  "\<not> str_in ''.jpg'' (str_lower ''a.B'') \<and> \<not> str_in ''.jpeg'' (str_lower ''a.B'')
   \<and> \<not> str_in ''.png'' (str_lower ''a.B'') \<and> \<not> str_in ''.gif'' (str_lower ''a.B'')
   \<and> \<not> str_in ''.webp'' (str_lower ''a.B'') \<and> \<not> str_in ''.svg'' (str_lower ''a.B'')
   \<and> extract_format ''a.B'' = ''jpg''
   \<and> validate_format (extract_format ''a.B'') = Inr ''jpg''"
proof -
  have h: "\<forall>e \<in> {''.jpg'', ''.jpeg'', ''.png'', ''.gif'', ''.webp'', ''.svg''}.
          \<not> str_in e (str_lower ''a.B'')"
    by (simp add: str_lower_def lower_char_def)
  from extract_format_accepted [of "''a.B''"] h show ?thesis
    by (simp add: validate_format_def valid_formats_def str_lower_def lower_char_def)
qed

section \<open>Properties of the image pipeline\<close>

lemma rfind_drop:
  assumes "c \<in> set s"
  shows "drop (nat (rfind c s)) s = c # rev (takeWhile (\<lambda>x. x \<noteq> c) (rev s))"
proof -
  let ?P = "\<lambda>x. x \<noteq> c"
  let ?tw = "takeWhile ?P (rev s)"
  let ?dw = "dropWhile ?P (rev s)"
  from assms have "?dw \<noteq> []" by simp
  then obtain ys where dw: "?dw = c # ys"
    using hd_dropWhile [of ?P "rev s"] by (cases ?dw) auto
  have "rev s = ?tw @ ?dw" by simp
  then have s: "s = rev ys @ c # rev ?tw"
    using dw by (metis rev_append rev_rev_ident rev.simps(2) append.assoc append_Cons append_Nil)
  have len: "length s = length ys + 1 + length ?tw"
    by (subst s) simp
  have "nat (rfind c s) = length ys"
    using assms len by (simp add: rfind_def)
  then show ?thesis
    by (subst (2) s) simp
qed

text \<open>
  A non-empty suffix is the tail of the path's last component from its last dot on:
  a dot followed by at least one character, none of them a dot.
\<close>

lemma path_suffix_shape:
  assumes "path_suffix p \<noteq> []"
  shows "hd (path_suffix p) = CHR ''.'' \<and> suffix (path_suffix p) (path_name p)
       \<and> CHR ''.'' \<notin> set (tl (path_suffix p)) \<and> tl (path_suffix p) \<noteq> []"
proof -
  let ?n = "path_name p"
  let ?i = "rfind CHR ''.'' ?n"
  from assms have i: "0 < ?i" "?i < int (length ?n) - 1"
    and ps: "path_suffix p = drop (nat ?i) ?n"
    by (auto simp: path_suffix_def Let_def split: if_splits)
  from i have mem: "CHR ''.'' \<in> set ?n"
    by (auto simp: rfind_def split: if_splits)
  have d: "path_suffix p = CHR ''.'' # rev (takeWhile (\<lambda>x. x \<noteq> CHR ''.'') (rev ?n))"
    using rfind_drop [OF mem] ps by simp
  have "length (path_suffix p) = length ?n - nat ?i" using ps by simp
  with i have "length (path_suffix p) > 1" by linarith
  then have ne: "tl (path_suffix p) \<noteq> []"
    by (cases "path_suffix p") auto
  have nodot: "CHR ''.'' \<notin> set (tl (path_suffix p))"
    using d by (auto dest: set_takeWhileD)
  have "suffix (path_suffix p) ?n"
    unfolding ps by (rule suffix_drop)
  with d ne nodot show ?thesis by simp
qed

lemma download_try_again:
  assumes "download_try e od d u = (r, d1)"
  shows "download_try e od d1 u = (r, d1)"
  using assms
  by (auto simp: download_try_def save_response_def Let_def fun_upd_idem insert_absorb
      split: option.splits sum.splits prod.splits)






text \<open>
  Claim C5. \<open>generate_filename\<close> depends on the URL alone (it reads neither the disk
  nor the output directory): where \<open>urlparse\<close> accepts the URL, the file name is the
  hash of the URL followed by the suffix of the URL's path, or by \<open>.jpg\<close> when the
  path has no suffix; the extension is a dot followed by at least one character.
  Fetching the same URL again therefore gives the same result and leaves the disk
  as the first fetch left it: the file is overwritten, no second file appears.
\<close>

theorem generate_filename_stable:
  assumes "download_image e od d u = Inr (r1, d1)"
  shows "(case urlparse_path e u of
            Inl x \<Rightarrow> generate_filename e u = Inl x
          | Inr p \<Rightarrow>
              (\<exists>ext. generate_filename e u = Inr (md5_hexdigest e u @ ext)
                 \<and> ext = (if path_suffix p = [] then ''.jpg'' else path_suffix p)
                 \<and> hd ext = CHR ''.'' \<and> tl ext \<noteq> []
                 \<and> (ext = ''.jpg'' \<or> suffix ext (path_name p))))
       \<and> download_image e od d1 u = Inr (r1, d1)
       \<and> dom (files d1) \<subseteq> insert (path_join e od (md5_hexdigest e u @
              (case urlparse_path e u of Inl x \<Rightarrow> []
               | Inr p \<Rightarrow> if path_suffix p = [] then ''.jpg'' else path_suffix p)))
            (dom (files d))"
proof -
  have name: "case urlparse_path e u of
            Inl x \<Rightarrow> generate_filename e u = Inl x
          | Inr p \<Rightarrow>
              (\<exists>ext. generate_filename e u = Inr (md5_hexdigest e u @ ext)
                 \<and> ext = (if path_suffix p = [] then ''.jpg'' else path_suffix p)
                 \<and> hd ext = CHR ''.'' \<and> tl ext \<noteq> []
                 \<and> (ext = ''.jpg'' \<or> suffix ext (path_name p)))"
  proof (cases "urlparse_path e u")
    case (Inl x)
    then show ?thesis by (simp add: generate_filename_def)
  next
    case (Inr p)
    show ?thesis
    proof (cases "path_suffix p = []")
      case True
      with Inr show ?thesis by (simp add: generate_filename_def)
    next
      case False
      with Inr path_suffix_shape [OF False] show ?thesis
        by (simp add: generate_filename_def)
    qed
  qed
  obtain o1 where t: "download_try e od d u = (o1, d1)"
    using assms by (auto simp: download_image_def split: prod.splits sum.splits)
  have again: "download_image e od d1 u = Inr (r1, d1)"
    using assms download_try_again [OF t] t by (simp add: download_image_def)
  have "dom (files d1) \<subseteq> insert (path_join e od (md5_hexdigest e u @
              (case urlparse_path e u of Inl x \<Rightarrow> []
               | Inr p \<Rightarrow> if path_suffix p = [] then ''.jpg'' else path_suffix p)))
            (dom (files d))"
    using t
    by (auto simp: download_try_def save_response_def generate_filename_def Let_def
        split: option.splits sum.splits prod.splits if_splits)
  with name again show ?thesis by blast
qed

theorem generate_filename_stable_witness:
  "download_image demo_env ''out'' \<lparr>dirs = {}, files = Map.empty\<rparr> ''u''
     = Inr (\<lparr>success = True, result_url = ''u'', local_path = Some ''out/hu.PNG'',
             error_message = None\<rparr>,
            \<lparr>dirs = {''out''}, files = [''out/hu.PNG'' \<mapsto> ''data'']\<rparr>)
   \<and> download_image demo_env ''out''
        \<lparr>dirs = {''out''}, files = [''out/hu.PNG'' \<mapsto> ''data'']\<rparr> ''u''
     = Inr (\<lparr>success = True, result_url = ''u'', local_path = Some ''out/hu.PNG'',
             error_message = None\<rparr>,
            \<lparr>dirs = {''out''}, files = [''out/hu.PNG'' \<mapsto> ''data'']\<rparr>)
   \<and> generate_filename demo_env ''u'' = Inr ''hu.PNG''"
proof -
  have ps: "path_suffix ''/a/b.PNG'' = ''.PNG''"
    by (simp add: path_suffix_def path_name_def rfind_def Let_def)
  have gf: "generate_filename demo_env ''u'' = Inr ''hu.PNG''"
    by (simp add: generate_filename_def demo_env_def ps)
  have io: "mkdir_parents demo_env ''out'' = None"
    "http_get demo_env ''u'' = Inr \<lparr>status_code = 200, content = ''data''\<rparr>"
    "path_join demo_env ''out'' ''hu.PNG'' = ''out/hu.PNG''"
    "raise_for_status demo_env \<lparr>status_code = 200, content = ''data''\<rparr> = None"
    "open_wb demo_env ''out/hu.PNG'' = None"
    "write_bytes demo_env ''out/hu.PNG'' ''data'' = None"
    "close_file demo_env ''out/hu.PNG'' = None"
    "aclose demo_env ''u'' = None"
    by (simp_all add: demo_env_def)
  have c: "download_image demo_env ''out'' \<lparr>dirs = {}, files = Map.empty\<rparr> ''u''
     = Inr (\<lparr>success = True, result_url = ''u'', local_path = Some ''out/hu.PNG'',
             error_message = None\<rparr>,
            \<lparr>dirs = {''out''}, files = [''out/hu.PNG'' \<mapsto> ''data'']\<rparr>)"
    by (simp add: download_image_def download_try_def save_response_def finally_do_def Let_def gf io)
  note again = generate_filename_stable [OF c, THEN conjunct2, THEN conjunct1]
  show ?thesis
    by (intro conjI) (rule c, rule again, rule gf)
qed

section \<open>Properties of the scroll loops\<close>

lemma scroll_more_loop_bound:
  "scrolls (snd (scroll_more_loop e k p)) \<le> scrolls p + k
   \<and> waited (snd (scroll_more_loop e k p)) \<le> waited p + 4000 * k
   \<and> (fst (scroll_more_loop e k p) = None \<longrightarrow>
        scrolls (snd (scroll_more_loop e k p)) = scrolls p + k)"
proof (induction k arbitrary: p)
  case 0
  show ?case by simp
next
  case (Suc k)
  show ?case
  proof (cases "evaluate_scroll e (scrolls p)")
    case (Some x)
    then show ?thesis by simp
  next
    case None
    let ?p1 = "p\<lparr>scrolls := Suc (scrolls p),
                      item_count := item_count p + growth e (scrolls p),
                      waited := waited p + 2000\<rparr>"
    let ?p2 = "?p1\<lparr>clicks := Suc (clicks ?p1),
                             item_count := item_count ?p1 + click_growth e (scrolls p),
                             waited := waited ?p1 + 2000\<rparr>"
    show ?thesis
    proof (cases "load_more_button e (scrolls p)")
      case (Inl x)
      with None show ?thesis by simp
    next
      case (Inr b)
      show ?thesis
      proof (cases b)
        case False
        with None Inr Suc.IH [of ?p1] show ?thesis by simp
      next
        case True
        show ?thesis
        proof (cases "click_load_more e (scrolls p)")
          case (Some x)
          with None Inr True show ?thesis by simp
        next
          case n2: None
          with None Inr True Suc.IH [of ?p2] show ?thesis by simp
        qed
      qed
    qed
  qed
qed

lemma scroll_load_loop_bound:
  "scrolls (snd (scroll_load_loop e k p)) \<le> scrolls p + k
   \<and> waited (snd (scroll_load_loop e k p)) \<le> waited p + 1500 * k
   \<and> (fst (scroll_load_loop e k p) = None \<longrightarrow>
        scrolls (snd (scroll_load_loop e k p)) = scrolls p + k)"
proof (induction k arbitrary: p)
  case 0
  show ?case by simp
next
  case (Suc k)
  show ?case
  proof (cases "evaluate_scroll e (scrolls p)")
    case (Some x)
    then show ?thesis by simp
  next
    case None
    with Suc.IH [of "p\<lparr>scrolls := Suc (scrolls p),
               item_count := item_count p + growth e (scrolls p),
               waited := waited p + 1500\<rparr>"] show ?thesis by simp
  qed
qed

text \<open>
  Claim C8. The scroll loops end after at most the requested number of scroll-advances
  and a bounded settle time, for every page and every behaviour of the listing, also
  one that never grows; when no step raises they issue exactly that number.
\<close>

theorem scroll_loops_bounded:
  "scrolls (snd (scroll_to_load_more e n p)) \<le> scrolls p + nat n
   \<and> waited (snd (scroll_to_load_more e n p)) \<le> waited p + 4000 * nat n
   \<and> (fst (scroll_to_load_more e n p) = None \<longrightarrow>
        scrolls (snd (scroll_to_load_more e n p)) = scrolls p + nat n)
   \<and> scrolls (snd (scroll_to_load e n p)) \<le> scrolls p + nat n
   \<and> waited (snd (scroll_to_load e n p)) \<le> waited p + 1500 * nat n
   \<and> (fst (scroll_to_load e n p) = None \<longrightarrow>
        scrolls (snd (scroll_to_load e n p)) = scrolls p + nat n)"
  using scroll_more_loop_bound [of e "nat n" p] scroll_load_loop_bound [of e "nat n" p]
  by (simp add: scroll_to_load_more_def scroll_to_load_def)

theorem scroll_loops_bounded_witness:
  "scroll_to_load_more never_grows 3 \<lparr>scrolls = 0, item_count = 12, clicks = 0, waited = 0\<rparr>
     = (None, \<lparr>scrolls = 3, item_count = 12, clicks = 0, waited = 6000\<rparr>)
   \<and> scroll_to_load never_grows 5 \<lparr>scrolls = 0, item_count = 12, clicks = 0, waited = 0\<rparr>
     = (None, \<lparr>scrolls = 5, item_count = 12, clicks = 0, waited = 7500\<rparr>)
   \<and> scrolls (snd (scroll_to_load_more never_grows 3
         \<lparr>scrolls = 0, item_count = 12, clicks = 0, waited = 0\<rparr>)) = 3"
proof -
  have a: "scroll_to_load_more never_grows 3 \<lparr>scrolls = 0, item_count = 12, clicks = 0, waited = 0\<rparr>
     = (None, \<lparr>scrolls = 3, item_count = 12, clicks = 0, waited = 6000\<rparr>)"
    by (simp add: scroll_to_load_more_def never_grows_def eval_nat_numeral)
  have b: "scroll_to_load never_grows 5 \<lparr>scrolls = 0, item_count = 12, clicks = 0, waited = 0\<rparr>
     = (None, \<lparr>scrolls = 5, item_count = 12, clicks = 0, waited = 7500\<rparr>)"
    by (simp add: scroll_to_load_def never_grows_def eval_nat_numeral)
  from a have f: "fst (scroll_to_load_more never_grows 3
      \<lparr>scrolls = 0, item_count = 12, clicks = 0, waited = 0\<rparr>) = None" by simp
  have c: "scrolls (snd (scroll_to_load_more never_grows 3
         \<lparr>scrolls = 0, item_count = 12, clicks = 0, waited = 0\<rparr>)) = 3"
    using scroll_loops_bounded [of never_grows 3
        "\<lparr>scrolls = 0, item_count = 12, clicks = 0, waited = 0\<rparr>"] f by simp
  show ?thesis by (intro conjI) (rule a, rule b, rule c)
qed

section \<open>Properties of the collection loops\<close>

lemma scrape_loop_skips:
  assumes "scrape_loop n i items (s, c) = (s', c')"
  shows "processed_projects s \<subseteq> processed_projects s'
       \<and> (\<exists>new. calls s' = calls s @ new \<and> set new \<inter> processed_projects s = {})"
  using assms
proof (induction items arbitrary: s c i)
  case Nil
  then show ?case by simp
next
  case (Cons it rest)
  obtain u out where it: "it = (u, out)" by (cases it)
  show ?case
  proof (cases "u \<in> processed_projects s")
    case True
    with Cons.prems it have "scrape_loop n (Suc i) rest (s, c) = (s', c')" by simp
    from Cons.IH [OF this] show ?thesis .
  next
    case False
    show ?thesis
    proof (cases out)
      case None
      let ?s1 = "s\<lparr>calls := calls s @ [u],
                   processed_projects := insert u (processed_projects s),
                   sleeps := (if i < n then Suc (sleeps s) else sleeps s)\<rparr>"
      from Cons.prems it False None
      have "scrape_loop n (Suc i) rest (?s1, Suc c) = (s', c')" by simp
      from Cons.IH [OF this] obtain new where
        sub: "processed_projects ?s1 \<subseteq> processed_projects s'"
        and new: "calls s' = calls ?s1 @ new" "set new \<inter> processed_projects ?s1 = {}"
        by blast
      from new False have "calls s' = calls s @ (u # new)"
        "set (u # new) \<inter> processed_projects s = {}" by auto
      with sub show ?thesis by (simp; blast)
    next
      case (Some x)
      let ?s1 = "s\<lparr>calls := calls s @ [u], printed_errors := printed_errors s @ [x]\<rparr>"
      from Cons.prems it False Some
      have "scrape_loop n (Suc i) rest (?s1, c) = (s', c')" by simp
      from Cons.IH [OF this] obtain new where
        sub: "processed_projects ?s1 \<subseteq> processed_projects s'"
        and new: "calls s' = calls ?s1 @ new" "set new \<inter> processed_projects ?s1 = {}"
        by blast
      from new False have "calls s' = calls s @ (u # new)"
        "set (u # new) \<inter> processed_projects s = {}" by auto
      with sub show ?thesis by (simp; blast)
    qed
  qed
qed

lemma scrape_boards_skips:
  "processed_boards s \<subseteq> processed_boards (scrape_boards items s)
   \<and> (\<exists>new. board_calls (scrape_boards items s) = board_calls s @ new
         \<and> set new \<inter> processed_boards s = {})"
proof (induction items arbitrary: s)
  case Nil
  show ?case by simp
next
  case (Cons it rest)
  obtain u out where it: "it = (u, out)" by (cases it)
  show ?case
  proof (cases "u \<in> processed_boards s")
    case True
    with it Cons.IH [of s] show ?thesis by simp
  next
    case False
    let ?s1 = "s\<lparr>board_calls := board_calls s @ [u]\<rparr>"
    show ?thesis
    proof (cases out)
      case (Board_raises x)
      from Cons.IH [of ?s1] obtain new where
        sub: "processed_boards ?s1 \<subseteq> processed_boards (scrape_boards rest ?s1)"
        and new: "board_calls (scrape_boards rest ?s1) = board_calls ?s1 @ new"
          "set new \<inter> processed_boards ?s1 = {}"
        by blast
      from new False have "board_calls (scrape_boards rest ?s1) = board_calls s @ (u # new)"
        "set (u # new) \<inter> processed_boards s = {}" by auto
      with sub it False Board_raises show ?thesis by (simp; blast)
    next
      case (Pins k m)
      let ?s2 = "?s1\<lparr>processed_boards := insert u (processed_boards ?s1),
                    boards_scraped := Suc (boards_scraped ?s1),
                    pins_scraped := (if k \<noteq> 0 then pins_scraped ?s1 + k
                                     else pins_scraped ?s1),
                    pin_images_downloaded :=
                      (if k \<noteq> 0 then pin_images_downloaded ?s1 + m
                       else pin_images_downloaded ?s1)\<rparr>"
      from Cons.IH [of ?s2] obtain new where
        sub: "processed_boards ?s2 \<subseteq> processed_boards (scrape_boards rest ?s2)"
        and new: "board_calls (scrape_boards rest ?s2) = board_calls ?s2 @ new"
          "set new \<inter> processed_boards ?s2 = {}"
        by blast
      from new False have "board_calls (scrape_boards rest ?s2) = board_calls s @ (u # new)"
        "set (u # new) \<inter> processed_boards s = {}" by auto
      with sub it False Pins show ?thesis by (simp add: Let_def; blast)
    qed
  qed
qed

text \<open>
  Claim C7. In a collection run, a key that is in the processed set when the loop starts
  is skipped: the scraping function is never called on it during the run; and the
  processed set only grows. This holds for the project loop of \<open>scrape_search\<close> and
  for the board loop of \<open>scrape_profile\<close>.
\<close>

theorem processed_items_skipped:
  assumes "scrape_search (Inr links) max_projects s = (r, s')"
  shows "processed_projects s \<subseteq> processed_projects s'
       \<and> (\<exists>new. calls s' = calls s @ new \<and> (\<forall>u \<in> processed_projects s. u \<notin> set new))
       \<and> processed_boards t \<subseteq> processed_boards (scrape_boards boards t)
       \<and> (\<exists>new. board_calls (scrape_boards boards t) = board_calls t @ new
             \<and> (\<forall>u \<in> processed_boards t. u \<notin> set new))"
proof -
  let ?pl = "py_take max_projects links"
  obtain c' where "scrape_loop (length ?pl) 1 ?pl (s, 0) = (s', c')"
    using assms by (auto simp: scrape_search_def Let_def split: prod.splits)
  from scrape_loop_skips [OF this] scrape_boards_skips [of t boards]
  show ?thesis by blast
qed

theorem processed_items_skipped_witness:
  "scrape_search (Inr [(''a'', None), (''b'', None)]) 10
       \<lparr>processed_projects = {''a''}, calls = [], printed_errors = [], sleeps = 0\<rparr>
     = (Inr 1, \<lparr>processed_projects = {''b'', ''a''}, calls = [''b''], printed_errors = [],
                sleeps = 0\<rparr>)
   \<and> processed_projects
        \<lparr>processed_projects = {''a''}, calls = [], printed_errors = [], sleeps = 0\<rparr>
      \<subseteq> processed_projects
        \<lparr>processed_projects = {''b'', ''a''}, calls = [''b''], printed_errors = [],
         sleeps = 0\<rparr>
   \<and> processed_boards
        \<lparr>processed_boards = {''x''}, board_calls = [], boards_scraped = 0, pins_scraped = 0,
         pin_images_downloaded = 0\<rparr>
      \<subseteq> processed_boards (scrape_boards [(''x'', Pins 2 2), (''y'', Pins 3 1)]
        \<lparr>processed_boards = {''x''}, board_calls = [], boards_scraped = 0, pins_scraped = 0,
         pin_images_downloaded = 0\<rparr>)
   \<and> board_calls (scrape_boards [(''x'', Pins 2 2), (''y'', Pins 3 1)]
        \<lparr>processed_boards = {''x''}, board_calls = [], boards_scraped = 0, pins_scraped = 0,
         pin_images_downloaded = 0\<rparr>) = [''y'']"
proof -
  have c: "scrape_search (Inr [(''a'', None), (''b'', None)]) 10
       \<lparr>processed_projects = {''a''}, calls = [], printed_errors = [], sleeps = 0\<rparr>
     = (Inr 1, \<lparr>processed_projects = {''b'', ''a''}, calls = [''b''], printed_errors = [],
                sleeps = 0\<rparr>)"
    by (simp add: scrape_search_def py_take_def)
  note th = processed_items_skipped [OF c,
      of "\<lparr>processed_boards = {''x''}, board_calls = [], boards_scraped = 0, pins_scraped = 0,
         pin_images_downloaded = 0\<rparr>" "[(''x'', Pins 2 2), (''y'', Pins 3 1)]"]
  have b: "board_calls (scrape_boards [(''x'', Pins 2 2), (''y'', Pins 3 1)]
        \<lparr>processed_boards = {''x''}, board_calls = [], boards_scraped = 0, pins_scraped = 0,
         pin_images_downloaded = 0\<rparr>) = [''y'']"
    by simp
  show ?thesis
    by (intro conjI)
       (rule c, rule th [THEN conjunct1], rule th [THEN conjunct2, THEN conjunct2, THEN conjunct1],
        rule b)
qed

lemma scrape_loop_all:
  assumes "distinct (map fst items)" and "scrape_loop n i items (s, c) = (s', c')"
  shows "calls s' = calls s @ filter (\<lambda>u. u \<notin> processed_projects s) (map fst items)
       \<and> printed_errors s' = printed_errors s
            @ map (the \<circ> snd) (filter (\<lambda>(u, out). out \<noteq> None \<and> u \<notin> processed_projects s) items)
       \<and> processed_projects s' = processed_projects s \<union> {u. (u, None) \<in> set items}
       \<and> c' = c + length (filter (\<lambda>(u, out). out = None \<and> u \<notin> processed_projects s) items)"
  using assms
proof (induction items arbitrary: s c i)
  case Nil
  then show ?case by simp
next
  case (Cons it rest)
  obtain u out where it: "it = (u, out)" by (cases it)
  from Cons.prems(1) it have d: "distinct (map fst rest)" and fresh: "u \<notin> fst ` set rest"
    by auto
  from fresh have nopair: "\<And>y. (u, y) \<notin> set rest"
    by (auto simp: image_iff)
  show ?case
  proof (cases "u \<in> processed_projects s")
    case True
    with Cons.prems(2) it have "scrape_loop n (Suc i) rest (s, c) = (s', c')" by simp
    from Cons.IH [OF d this] True it show ?thesis by auto
  next
    case False
    have f1: "filter (\<lambda>v. v \<notin> insert u (processed_projects s)) (map fst rest)
            = filter (\<lambda>v. v \<notin> processed_projects s) (map fst rest)"
      using fresh by (intro filter_cong) auto
    have f2: "\<And>b. filter (\<lambda>(v, out). out \<noteq> None \<and> v \<notin> insert u (processed_projects s)) rest
            = filter (\<lambda>(v, out). out \<noteq> None \<and> v \<notin> processed_projects s) rest"
      using nopair by (intro filter_cong) auto
    have f3: "filter (\<lambda>(v, out). out = None \<and> v \<notin> insert u (processed_projects s)) rest
            = filter (\<lambda>(v, out). out = None \<and> v \<notin> processed_projects s) rest"
      using nopair by (intro filter_cong) auto
    show ?thesis
    proof (cases out)
      case None
      let ?s1 = "s\<lparr>calls := calls s @ [u],
                   processed_projects := insert u (processed_projects s),
                   sleeps := (if i < n then Suc (sleeps s) else sleeps s)\<rparr>"
      from Cons.prems(2) it False None
      have "scrape_loop n (Suc i) rest (?s1, Suc c) = (s', c')" by simp
      from Cons.IH [OF d this] False it None f1 f2 f3 show ?thesis by auto
    next
      case (Some x)
      let ?s1 = "s\<lparr>calls := calls s @ [u], printed_errors := printed_errors s @ [x]\<rparr>"
      from Cons.prems(2) it False Some
      have "scrape_loop n (Suc i) rest (?s1, c) = (s', c')" by simp
      from Cons.IH [OF d this] False it Some show ?thesis by auto
    qed
  qed
qed

lemma cron_projects_all:
  "visited (cron_projects items r) = visited r @ map fst items
   \<and> errors (stats (cron_projects items r))
       = errors (stats r) + length (filter (\<lambda>(u, out). \<exists>x. out = Raises x) items)"
proof (induction items arbitrary: r)
  case Nil
  show ?case by simp
next
  case (Cons it rest)
  obtain u out where it: "it = (u, out)" by (cases it)
  show ?case
  proof (cases out)
    case (Raises x)
    with it Cons.IH [of "r\<lparr>visited := visited r @ [u],
        stats := (stats r)\<lparr>errors := Suc (errors (stats r))\<rparr>\<rparr>"]
    show ?thesis by (simp add: Let_def)
  next
    case (Found k m)
    with it Cons.IH [of "r\<lparr>visited := visited r @ [u]\<rparr>"]
      Cons.IH [of "r\<lparr>visited := visited r @ [u], stats := (stats r)
                         \<lparr>projects_scraped := Suc (projects_scraped (stats r)),
                          images_downloaded := images_downloaded (stats r) + m\<rparr>\<rparr>"]
    show ?thesis by (simp add: Let_def)
  qed
qed

text \<open>
  Claim C3, as the code has it. When processing an item raises, the collector reports
  the error and goes on: over a duplicate-free listing \<open>scrape_project\<close> is called,
  in order, on every item that was not processed before the loop, whatever the other
  items did; one error is printed per failing item; and the processed set gains the
  items that succeeded. An item that failed is not added to the processed set. The
  cron scraper visits every item and counts exactly one error per failing item.
\<close>

theorem fault_isolation_without_marking:
  assumes "distinct (map fst (py_take m links))"
    and "scrape_search (Inr links) m s = (r, s')"
  shows "calls s' = calls s
            @ filter (\<lambda>u. u \<notin> processed_projects s) (map fst (py_take m links))
       \<and> printed_errors s' = printed_errors s
            @ map (the \<circ> snd)
                (filter (\<lambda>(u, out). out \<noteq> None \<and> u \<notin> processed_projects s) (py_take m links))
       \<and> processed_projects s' = processed_projects s \<union> {u. (u, None) \<in> set (py_take m links)}
       \<and> (\<forall>u x. (u, Some x) \<in> set (py_take m links) \<and> u \<notin> processed_projects s
             \<longrightarrow> u \<notin> processed_projects s')
       \<and> visited (cron_projects items cr) = visited cr @ map fst items
       \<and> errors (stats (cron_projects items cr))
           = errors (stats cr) + length (filter (\<lambda>(u, out). \<exists>x. out = Raises x) items)"
proof -
  let ?pl = "py_take m links"
  obtain c' where "scrape_loop (length ?pl) 1 ?pl (s, 0) = (s', c')"
    using assms(2) by (auto simp: scrape_search_def Let_def split: prod.splits)
  note loop = scrape_loop_all [OF assms(1) this]
  have "u \<notin> processed_projects s'"
    if "(u, Some x) \<in> set ?pl" "u \<notin> processed_projects s" for u x
  proof -
    have "(u, None) \<notin> set ?pl"
    proof
      assume "(u, None) \<in> set ?pl"
      with that(1) assms(1) show False
        by (metis eq_key_imp_eq_value option.distinct(1))
    qed
    with loop that(2) show ?thesis by simp
  qed
  with loop cron_projects_all [of items cr] show ?thesis by blast
qed

theorem failed_item_not_marked_counterexample:
  "''b'' \<notin> processed_projects (snd (scrape_search
       (Inr [(''a'', None), (''b'', Some (Exc ''boom'')), (''c'', None)]) 10
       \<lparr>processed_projects = {}, calls = [], printed_errors = [], sleeps = 0\<rparr>))
   \<and> calls (snd (scrape_search
       (Inr [(''a'', None), (''b'', Some (Exc ''boom'')), (''c'', None)]) 10
       (snd (scrape_search
          (Inr [(''a'', None), (''b'', Some (Exc ''boom'')), (''c'', None)]) 10
          \<lparr>processed_projects = {}, calls = [], printed_errors = [], sleeps = 0\<rparr>))))
     = [''a'', ''b'', ''c'', ''b'']"
  by (simp add: scrape_search_def py_take_def)

theorem fault_isolation_without_marking_witness:
  "distinct (map fst (py_take 10 [(''a'', None), (''b'', Some (Exc ''boom'')), (''c'', None)]))
   \<and> scrape_search (Inr [(''a'', None), (''b'', Some (Exc ''boom'')), (''c'', None)]) 10
        \<lparr>processed_projects = {}, calls = [], printed_errors = [], sleeps = 0\<rparr>
     = (Inr 2, \<lparr>processed_projects = {''c'', ''a''}, calls = [''a'', ''b'', ''c''],
          printed_errors = [Exc ''boom''], sleeps = 1\<rparr>)
   \<and> ''b'' \<notin> {''c'', ''a''}
   \<and> errors (stats (cron_projects [(''p'', Raises (Exc ''x'')), (''q'', Found 2 1)]
        \<lparr>stats = \<lparr>projects_scraped = 0, images_downloaded = 0, errors = 0\<rparr>, visited = []\<rparr>)) = 1
   \<and> visited (cron_projects [(''p'', Raises (Exc ''x'')), (''q'', Found 2 1)]
        \<lparr>stats = \<lparr>projects_scraped = 0, images_downloaded = 0, errors = 0\<rparr>, visited = []\<rparr>) = [''p'', ''q'']"
proof -
  have h: "distinct (map fst (py_take 10 [(''a'', None), (''b'', Some (Exc ''boom'')), (''c'', None)]))"
    by (simp add: py_take_def)
  have c: "scrape_search (Inr [(''a'', None), (''b'', Some (Exc ''boom'')), (''c'', None)]) 10
        \<lparr>processed_projects = {}, calls = [], printed_errors = [], sleeps = 0\<rparr>
     = (Inr 2, \<lparr>processed_projects = {''c'', ''a''}, calls = [''a'', ''b'', ''c''],
          printed_errors = [Exc ''boom''], sleeps = 1\<rparr>)"
    by (simp add: scrape_search_def py_take_def)
  note th = fault_isolation_without_marking [OF h c, of "[(''p'', Raises (Exc ''x'')), (''q'', Found 2 1)]"
      "\<lparr>stats = \<lparr>projects_scraped = 0, images_downloaded = 0, errors = 0\<rparr>, visited = []\<rparr>"]
  from th have "(''b'', Some (Exc ''boom''))
        \<in> set (py_take 10 [(''a'', None), (''b'', Some (Exc ''boom'')), (''c'', None)])
      \<and> ''b'' \<notin> processed_projects
          \<lparr>processed_projects = {}, calls = [], printed_errors = [], sleeps = 0\<rparr>
      \<longrightarrow> ''b'' \<notin> processed_projects
          \<lparr>processed_projects = {''c'', ''a''}, calls = [''a'', ''b'', ''c''],
           printed_errors = [Exc ''boom''], sleeps = 1\<rparr>"
    by blast
  then have nb: "''b'' \<notin> {''c'', ''a''}"
    by (simp add: py_take_def)
  from th [THEN conjunct2, THEN conjunct2, THEN conjunct2, THEN conjunct2, THEN conjunct2]
  have e: "errors (stats (cron_projects [(''p'', Raises (Exc ''x'')), (''q'', Found 2 1)]
        \<lparr>stats = \<lparr>projects_scraped = 0, images_downloaded = 0, errors = 0\<rparr>, visited = []\<rparr>)) = 1"
    by simp
  from th [THEN conjunct2, THEN conjunct2, THEN conjunct2, THEN conjunct2, THEN conjunct1]
  have v: "visited (cron_projects [(''p'', Raises (Exc ''x'')), (''q'', Found 2 1)]
        \<lparr>stats = \<lparr>projects_scraped = 0, images_downloaded = 0, errors = 0\<rparr>, visited = []\<rparr>) = [''p'', ''q'']"
    by simp
  show ?thesis
    by (intro conjI) (rule h, rule c, rule nb, rule e, rule v)
qed

section \<open>Properties of the authentication\<close>

lemma login_with_cookies_Inr:
  "\<exists>b c1. login_with_cookies e c path = (Inr b, c1)"
  by (auto simp: login_with_cookies_def split: sum.splits bool.splits option.splits)

lemma login_with_google_Inr: "\<exists>b. login_with_google e = Inr b"
  by (auto simp: login_with_google_def split: sum.splits)

lemma login_Inr: "\<exists>b. login e = Inr b"
  by (auto simp: login_def split: sum.splits)

lemma save_cookies_Inr: "\<exists>b. save_cookies e path = Inr b"
  by (auto simp: save_cookies_def split: sum.splits option.splits)

text \<open>
  Claim C2, as the code has it. \<open>login_with_cookies\<close> reports success exactly when
  the cookie file exists, is read and parsed, and its cookies are added to the browsing
  context without an exception. It runs no logged-in probe: loading the cookies
  without error is what it reports as success.
\<close>

theorem login_with_cookies_success_iff:
  "fst (login_with_cookies e c path)
     = Inr (cookies_file_exists e path = Inr True
            \<and> (\<exists>cookies. load_cookies e path = Inr cookies \<and> add_cookies e cookies = None))"
  by (auto simp: login_with_cookies_def split: sum.splits bool.splits option.splits)

theorem cookies_loaded_but_logged_out_counterexample:
  "fst (login_with_cookies logged_out_site \<lparr>context_cookies = []\<rparr> ''cookies.json'') = Inr True
   \<and> \<not> logged_in_probe logged_out_site"
  by (simp add: login_with_cookies_def logged_in_probe_def logged_out_site_def
      logged_in_indicators_def str_lower_def lower_char_def)

lemma login_with_google_isolated:
  "login_with_google e = Inr (login_with_google_body e = Inr True)"
  by (cases "login_with_google_body e") (auto simp: login_with_google_def)

lemma login_isolated:
  "login e = Inr (login_body e = Inr True)"
  by (cases "login_body e") (auto simp: login_def)

lemma save_cookies_isolated:
  "save_cookies e path
     = Inr (\<exists>cookies. get_cookies e = Inr cookies \<and> write_cookies e path cookies = None)"
  by (auto simp: save_cookies_def split: sum.splits option.splits)

lemma login_with_cookies_isolated:
  "fst (login_with_cookies e c path)
     = Inr (cookies_file_exists e path = Inr True
            \<and> (\<exists>cookies. load_cookies e path = Inr cookies \<and> add_cookies e cookies = None))"
  by (auto simp: login_with_cookies_def split: sum.splits bool.splits option.splits)

lemma google_flow_True:
  "google_flow e popup = Inr True \<longleftrightarrow>
     google_email_step e = None
     \<and> (click_first (google_next e) next_selectors \<or> press_enter_email e = None)
     \<and> google_password_step e = None
     \<and> (click_first (google_signin e) signin_selectors \<or> press_enter_password e = None)
     \<and> (popup \<and> \<not> popup_is_closed e \<longrightarrow> popup_close e = None)
     \<and> logged_in_probe e"
  by (auto simp: google_flow_def split: option.splits if_splits)

lemma login_with_google_body_True:
  "login_with_google_body e = Inr True \<longleftrightarrow>
     goto_login e = None
     \<and> find_button (wait_for_selector e) google_selectors
     \<and> click_google e = None
     \<and> (if str_in ''accounts.google.com'' (url_after_click e) then google_flow e False = Inr True
         else 1 < page_count e \<and> popup_load_state e = None \<and> google_flow e True = Inr True)"
  by (auto simp: login_with_google_body_def split: option.splits if_splits)

lemma login_body_True:
  "login_body e = Inr True \<longleftrightarrow>
     goto_login e = None
     \<and> wait_for_selector e ''input[id=\"email\"]'' = Inr True
     \<and> fill_input e ''input[id=\"email\"]'' = None
     \<and> wait_for_selector e ''input[id=\"password\"]'' = Inr True
     \<and> fill_input e ''input[id=\"password\"]'' = None
     \<and> wait_for_selector e ''button[type=\"submit\"]'' = Inr True
     \<and> click_submit e = None
     \<and> \<not> str_in ''login'' (str_lower (url_after_submit e))"
  by (auto simp: login_body_def split: option.splits sum.splits bool.splits)

text \<open>
  Claim C6, as the code has it. The authentication phase never raises. It calls the
  strategies in the order session-restore, federated login, direct credentials, each
  only when every strategy called before it returned \<open>False\<close>, and it records for
  each the value the strategy returned; the federated and direct logins need an email
  and a password. It is logged in exactly when one of the called strategies returned
  \<open>True\<close>, and warns exactly when none did, after which the run goes on. Session-restore
  returns \<open>True\<close> as soon as the cookies are loaded, so a stale cookie file ends the
  phase with no further strategy and no failure recorded. Every strategy returns
  \<open>True\<close> only when all its steps went through, and \<open>False\<close> when a step raises.
\<close>

theorem authenticate_ordered_isolated:
  "(\<exists>out. authenticate e cookies_path email password c = Inr out
     \<and> attempts out =
         (if truthy cookies_path
          then [(Session_restore, fst (login_with_cookies e c (the cookies_path)) = Inr True)]
          else [])
         @ (if \<not> (truthy cookies_path
                    \<and> fst (login_with_cookies e c (the cookies_path)) = Inr True)
               \<and> truthy email \<and> truthy password
            then (Federated, login_with_google e = Inr True)
                   # (if login_with_google e = Inr True then []
                      else [(Direct, login e = Inr True)])
            else [])
     \<and> logged_in out =
         ((truthy cookies_path \<and> fst (login_with_cookies e c (the cookies_path)) = Inr True)
          \<or> (truthy email \<and> truthy password
              \<and> (login_with_google e = Inr True \<or> login e = Inr True)))
     \<and> warned out = (\<not> logged_in out)
     \<and> cookies_saved out =
         (if \<not> (truthy cookies_path
                  \<and> fst (login_with_cookies e c (the cookies_path)) = Inr True)
             \<and> truthy email \<and> truthy password
             \<and> (login_with_google e = Inr True \<or> login e = Inr True)
             \<and> truthy cookies_path
          then Some (save_cookies e (the cookies_path) = Inr True) else None)
     \<and> context_after out =
         (if truthy cookies_path then snd (login_with_cookies e c (the cookies_path)) else c)
     \<and> subseq (map fst (attempts out)) [Session_restore, Federated, Direct]
     \<and> list_all (\<lambda>(s, b). \<not> b) (butlast (attempts out))
     \<and> logged_in out = (attempts out \<noteq> [] \<and> snd (last (attempts out)))
     \<and> (Direct \<in> fst ` set (attempts out) \<longrightarrow> Federated \<in> fst ` set (attempts out))
     \<and> (truthy cookies_path \<and> truthy email \<and> truthy password \<and> \<not> logged_in out
          \<longrightarrow> attempts out = [(Session_restore, False), (Federated, False), (Direct, False)]))
   \<and> fst (login_with_cookies e c path)
         = Inr (cookies_file_exists e path = Inr True
                \<and> (\<exists>cookies. load_cookies e path = Inr cookies
                       \<and> add_cookies e cookies = None))
   \<and> login_with_google e = Inr (login_with_google_body e = Inr True)
   \<and> login e = Inr (login_body e = Inr True)
   \<and> save_cookies e path
       = Inr (\<exists>cookies. get_cookies e = Inr cookies \<and> write_cookies e path cookies = None)
   \<and> (login_with_google_body e = Inr True \<longleftrightarrow>
         goto_login e = None
         \<and> find_button (wait_for_selector e) google_selectors
         \<and> click_google e = None
         \<and> (if str_in ''accounts.google.com'' (url_after_click e)
             then google_flow e False = Inr True
             else 1 < page_count e \<and> popup_load_state e = None
                  \<and> google_flow e True = Inr True))
   \<and> (google_flow e popup = Inr True \<longleftrightarrow>
         google_email_step e = None
         \<and> (click_first (google_next e) next_selectors \<or> press_enter_email e = None)
         \<and> google_password_step e = None
         \<and> (click_first (google_signin e) signin_selectors \<or> press_enter_password e = None)
         \<and> (popup \<and> \<not> popup_is_closed e \<longrightarrow> popup_close e = None)
         \<and> logged_in_probe e)
   \<and> (login_body e = Inr True \<longleftrightarrow>
         goto_login e = None
         \<and> wait_for_selector e ''input[id=\"email\"]'' = Inr True
         \<and> fill_input e ''input[id=\"email\"]'' = None
         \<and> wait_for_selector e ''input[id=\"password\"]'' = Inr True
         \<and> fill_input e ''input[id=\"password\"]'' = None
         \<and> wait_for_selector e ''button[type=\"submit\"]'' = Inr True
         \<and> click_submit e = None
         \<and> \<not> str_in ''login'' (str_lower (url_after_submit e)))"
proof -
  obtain b1 c1 where ck: "login_with_cookies e c (the cookies_path) = (Inr b1, c1)"
    using login_with_cookies_Inr by blast
  obtain g where g: "login_with_google e = Inr g"
    using login_with_google_Inr by blast
  obtain d where d: "login e = Inr d"
    using login_Inr by blast
  obtain sv where sv: "save_cookies e (the cookies_path) = Inr sv"
    using save_cookies_Inr by blast
  have main: "\<exists>out. authenticate e cookies_path email password c = Inr out
     \<and> attempts out =
         (if truthy cookies_path
          then [(Session_restore, fst (login_with_cookies e c (the cookies_path)) = Inr True)]
          else [])
         @ (if \<not> (truthy cookies_path
                    \<and> fst (login_with_cookies e c (the cookies_path)) = Inr True)
               \<and> truthy email \<and> truthy password
            then (Federated, login_with_google e = Inr True)
                   # (if login_with_google e = Inr True then []
                      else [(Direct, login e = Inr True)])
            else [])
     \<and> logged_in out =
         ((truthy cookies_path \<and> fst (login_with_cookies e c (the cookies_path)) = Inr True)
          \<or> (truthy email \<and> truthy password
              \<and> (login_with_google e = Inr True \<or> login e = Inr True)))
     \<and> warned out = (\<not> logged_in out)
     \<and> cookies_saved out =
         (if \<not> (truthy cookies_path
                  \<and> fst (login_with_cookies e c (the cookies_path)) = Inr True)
             \<and> truthy email \<and> truthy password
             \<and> (login_with_google e = Inr True \<or> login e = Inr True)
             \<and> truthy cookies_path
          then Some (save_cookies e (the cookies_path) = Inr True) else None)
     \<and> context_after out =
         (if truthy cookies_path then snd (login_with_cookies e c (the cookies_path)) else c)
     \<and> subseq (map fst (attempts out)) [Session_restore, Federated, Direct]
     \<and> list_all (\<lambda>(s, b). \<not> b) (butlast (attempts out))
     \<and> logged_in out = (attempts out \<noteq> [] \<and> snd (last (attempts out)))
     \<and> (Direct \<in> fst ` set (attempts out) \<longrightarrow> Federated \<in> fst ` set (attempts out))
     \<and> (truthy cookies_path \<and> truthy email \<and> truthy password \<and> \<not> logged_in out
          \<longrightarrow> attempts out = [(Session_restore, False), (Federated, False), (Direct, False)])"
    by (cases "truthy cookies_path"; cases b1; cases "truthy email"; cases "truthy password";
        cases g; cases d; cases sv)
       (simp_all add: authenticate_def bind_exc_def ck g d sv)
  show ?thesis
    by (intro conjI)
       (rule main, rule login_with_cookies_isolated, rule login_with_google_isolated,
        rule login_isolated, rule save_cookies_isolated, rule login_with_google_body_True,
        rule google_flow_True, rule login_body_True)
qed

theorem stale_cookies_end_authentication_counterexample:
  "authenticate logged_out_site
       (Some ''cookies.json'') (Some ''me@example.com'') (Some ''secret'')
       \<lparr>context_cookies = []\<rparr>
     = Inr \<lparr>logged_in = True, attempts = [(Session_restore, True)],
            cookies_saved = None, warned = False,
            context_after = \<lparr>context_cookies = [(''session'', ''expired'')]\<rparr>\<rparr>
   \<and> \<not> logged_in_probe logged_out_site"
proof -
  have k: "login_with_cookies logged_out_site \<lparr>context_cookies = []\<rparr> ''cookies.json''
      = (Inr True, \<lparr>context_cookies = [(''session'', ''expired'')]\<rparr>)"
    by (simp add: login_with_cookies_def logged_out_site_def)
  have t: "truthy (Some ''cookies.json'')"
    by (simp add: truthy_def)
  have a: "authenticate logged_out_site
       (Some ''cookies.json'') (Some ''me@example.com'') (Some ''secret'')
       \<lparr>context_cookies = []\<rparr>
     = Inr \<lparr>logged_in = True, attempts = [(Session_restore, True)],
            cookies_saved = None, warned = False,
            context_after = \<lparr>context_cookies = [(''session'', ''expired'')]\<rparr>\<rparr>"
    by (simp add: authenticate_def bind_exc_def k t)
  have p: "\<not> logged_in_probe logged_out_site"
    by (simp add: logged_in_probe_def logged_out_site_def logged_in_indicators_def
        str_lower_def lower_char_def)
  show ?thesis
    by (intro conjI) (rule a, rule p)
qed

theorem authenticate_ordered_isolated_witness:
  "authenticate (logged_out_site\<lparr>cookies_file_exists := (\<lambda>p. Inr False)\<rparr>)
       (Some ''cookies.json'') (Some ''me@example.com'') (Some ''secret'')
       \<lparr>context_cookies = []\<rparr>
     = Inr \<lparr>logged_in = False,
            attempts = [(Session_restore, False), (Federated, False), (Direct, False)],
            cookies_saved = None, warned = True,
            context_after = \<lparr>context_cookies = []\<rparr>\<rparr>
   \<and> truthy (Some ''cookies.json'') \<and> truthy (Some ''me@example.com'')
   \<and> truthy (Some ''secret'')
   \<and> login_with_google (logged_out_site\<lparr>goto_login := Some (Exc ''timeout'')\<rparr>) = Inr False
   \<and> login (logged_out_site\<lparr>goto_login := Some (Exc ''timeout'')\<rparr>) = Inr False"
proof -
  note th = authenticate_ordered_isolated
      [where e = "logged_out_site\<lparr>cookies_file_exists := (\<lambda>p. Inr False)\<rparr>"
         and cookies_path = "Some ''cookies.json''" and email = "Some ''me@example.com''"
         and password = "Some ''secret''" and c = "\<lparr>context_cookies = []\<rparr>"
         and path = "''cookies.json''" and popup = False]
  note tf = authenticate_ordered_isolated
      [where e = "logged_out_site\<lparr>goto_login := Some (Exc ''timeout'')\<rparr>"
         and cookies_path = None and email = None and password = None
         and c = "\<lparr>context_cookies = []\<rparr>" and path = "[]" and popup = False]
  have t: "truthy (Some ''cookies.json'')" "truthy (Some ''me@example.com'')"
    "truthy (Some ''secret'')"
    by (simp_all add: truthy_def)
  have g0: "login_with_google (logged_out_site\<lparr>cookies_file_exists := (\<lambda>p. Inr False)\<rparr>) = Inr False"
    by (simp add: login_with_google_def login_with_google_body_def google_flow_def
        logged_in_probe_def logged_out_site_def google_selectors_def next_selectors_def
        signin_selectors_def logged_in_indicators_def str_lower_def lower_char_def)
  have d0: "login (logged_out_site\<lparr>cookies_file_exists := (\<lambda>p. Inr False)\<rparr>) = Inr False"
    by (simp add: login_def login_body_def logged_out_site_def str_lower_def lower_char_def)
  have k0: "login_with_cookies (logged_out_site\<lparr>cookies_file_exists := (\<lambda>p. Inr False)\<rparr>)
       \<lparr>context_cookies = []\<rparr> ''cookies.json'' = (Inr False, \<lparr>context_cookies = []\<rparr>)"
    by (simp add: login_with_cookies_def logged_out_site_def)
  have c: "authenticate (logged_out_site\<lparr>cookies_file_exists := (\<lambda>p. Inr False)\<rparr>)
       (Some ''cookies.json'') (Some ''me@example.com'') (Some ''secret'')
       \<lparr>context_cookies = []\<rparr>
     = Inr \<lparr>logged_in = False,
            attempts = [(Session_restore, False), (Federated, False), (Direct, False)],
            cookies_saved = None, warned = True,
            context_after = \<lparr>context_cookies = []\<rparr>\<rparr>"
    by (simp add: authenticate_def bind_exc_def g0 d0 k0 t)
  from th [THEN conjunct1] obtain out
    where o: "authenticate (logged_out_site\<lparr>cookies_file_exists := (\<lambda>p. Inr False)\<rparr>)
       (Some ''cookies.json'') (Some ''me@example.com'') (Some ''secret'')
       \<lparr>context_cookies = []\<rparr> = Inr out"
      and al: "truthy (Some ''cookies.json'') \<and> truthy (Some ''me@example.com'')
          \<and> truthy (Some ''secret'') \<and> \<not> logged_in out
          \<longrightarrow> attempts out = [(Session_restore, False), (Federated, False), (Direct, False)]"
    by (elim exE conjE) (rule that)
  from o c have "\<not> logged_in out" by auto
  with al t have "attempts out = [(Session_restore, False), (Federated, False), (Direct, False)]"
    by simp
  have gt: "goto_login (logged_out_site\<lparr>goto_login := Some (Exc ''timeout'')\<rparr>) = Some (Exc ''timeout'')"
    by simp
  from tf [THEN conjunct2, THEN conjunct2, THEN conjunct2, THEN conjunct2, THEN conjunct2,
      THEN conjunct1] gt
  have gb: "login_with_google_body (logged_out_site\<lparr>goto_login := Some (Exc ''timeout'')\<rparr>) \<noteq> Inr True"
    by simp
  from tf [THEN conjunct2, THEN conjunct2, THEN conjunct1] gb
  have g: "login_with_google (logged_out_site\<lparr>goto_login := Some (Exc ''timeout'')\<rparr>) = Inr False"
    by simp
  from tf [THEN conjunct2, THEN conjunct2, THEN conjunct2, THEN conjunct2, THEN conjunct2,
      THEN conjunct2, THEN conjunct2] gt
  have lb: "login_body (logged_out_site\<lparr>goto_login := Some (Exc ''timeout'')\<rparr>) \<noteq> Inr True"
    by simp
  from tf [THEN conjunct2, THEN conjunct2, THEN conjunct2, THEN conjunct1] lb
  have f: "login (logged_out_site\<lparr>goto_login := Some (Exc ''timeout'')\<rparr>) = Inr False"
    by simp
  show ?thesis
    by (intro conjI) (rule c, rule t(1), rule t(2), rule t(3), rule g, rule f)
qed

section \<open>Properties of the document store\<close>

lemma update_first_again:
  assumes "update_first P f ds = Some ds'"
    and "\<And>d. P d \<Longrightarrow> P (f d)" and "\<And>d. P d \<Longrightarrow> f (f d) = f d"
  shows "update_first P f ds' = Some ds'"
  using assms(1)
proof (induction ds arbitrary: ds')
  case Nil
  then show ?case by simp
next
  case (Cons d ds)
  show ?case
  proof (cases "P d")
    case True
    with Cons.prems assms(2,3) show ?thesis by auto
  next
    case False
    with Cons.prems obtain r where r: "update_first P f ds = Some r" "ds' = d # r"
      by auto
    from Cons.IH [OF r(1)] False r(2) show ?thesis by simp
  qed
qed

lemma update_first_appended:
  assumes "update_first P f ds = None" and "P n" and "f n = n"
  shows "update_first P f (ds @ [n]) = Some (ds @ [n])"
  using assms(1)
  by (induction ds) (auto simp: assms(2,3) split: if_splits)

lemma update_first_count:
  assumes "update_first P f ds = Some ds'" and "\<And>d. P d \<Longrightarrow> Q (f d) = Q d"
  shows "length (filter Q ds') = length (filter Q ds)"
  using assms(1)
proof (induction ds arbitrary: ds')
  case Nil
  then show ?case by simp
next
  case (Cons d ds)
  show ?case
  proof (cases "P d")
    case True
    with Cons.prems assms(2) [of d] show ?thesis by auto
  next
    case False
    with Cons.prems obtain r where r: "update_first P f ds = Some r" "ds' = d # r"
      by auto
    from Cons.IH [OF r(1)] r(2) show ?thesis by simp
  qed
qed

lemma update_first_None:
  "update_first P f ds = None \<longleftrightarrow> filter P ds = []"
  by (induction ds) auto

lemma project_dict_id [simp]:
  "project_dict p ''id'' = Some (BInt (proj_id p))" "project_dict p ''_id'' = None"
  by (simp_all add: project_dict_def)

lemma map_add_twice: "(d ++ m) ++ m = d ++ m"
  by (rule ext) (simp add: map_add_def split: option.splits)

lemma matches_id:
  "matches [(''id'', BInt i)] = (\<lambda>d. d ''id'' = Some (BInt i))"
  by (rule ext) (simp add: matches_def)

lemma upsert_idem: "upsert p (upsert p c) = upsert p c"
proof (cases "update_first (matches [(''id'', BInt (proj_id p))]) (\<lambda>d. d ++ project_dict p) (docs c)")
  case None
  define n where
    "n = (map_of [(''id'', BInt (proj_id p))] ++ project_dict p)(''_id'' \<mapsto> BOid (next_oid c))"
  have m: "matches [(''id'', BInt (proj_id p))] n"
    by (simp add: matches_def n_def)
  have fx: "n ++ project_dict p = n"
    unfolding n_def by (rule ext) (simp add: map_add_def split: option.splits)
  have first: "upsert p c = c\<lparr>docs := docs c @ [n], next_oid := Suc (next_oid c)\<rparr>"
    using None by (simp add: upsert_def update_one_def insert_one_def n_def)
  have "update_first (matches [(''id'', BInt (proj_id p))]) (\<lambda>d. d ++ project_dict p)
          (docs (c\<lparr>docs := docs c @ [n], next_oid := Suc (next_oid c)\<rparr>))
        = Some (docs c @ [n])"
    using update_first_appended [OF None m fx] by simp
  then have "upsert p (c\<lparr>docs := docs c @ [n], next_oid := Suc (next_oid c)\<rparr>)
        = c\<lparr>docs := docs c @ [n], next_oid := Suc (next_oid c)\<rparr>"
    by (simp add: upsert_def update_one_def)
  with first show ?thesis by simp
next
  case (Some ds)
  have "update_first (matches [(''id'', BInt (proj_id p))]) (\<lambda>d. d ++ project_dict p) ds = Some ds"
    by (rule update_first_again [OF Some]) (simp_all add: matches_def map_add_twice)
  with Some show ?thesis
    by (simp add: upsert_def update_one_def)
qed

lemma upsert_count:
  "count_id (proj_id p) (upsert p c)
     = (if count_id (proj_id p) c = 0 then 1 else count_id (proj_id p) c)"
proof (cases "update_first (matches [(''id'', BInt (proj_id p))]) (\<lambda>d. d ++ project_dict p) (docs c)")
  case None
  then have z: "filter (\<lambda>d. d ''id'' = Some (BInt (proj_id p))) (docs c) = []"
    by (simp add: update_first_None matches_id)
  with None show ?thesis
    by (simp add: upsert_def update_one_def insert_one_def count_id_def)
next
  case (Some ds)
  have nz: "filter (\<lambda>d. d ''id'' = Some (BInt (proj_id p))) (docs c) \<noteq> []"
    using Some update_first_None [of "matches [(''id'', BInt (proj_id p))]" _ "docs c"]
    by (auto simp: matches_id)
  have "length (filter (\<lambda>d. d ''id'' = Some (BInt (proj_id p))) ds)
      = length (filter (\<lambda>d. d ''id'' = Some (BInt (proj_id p))) (docs c))"
    by (rule update_first_count [OF Some]) (simp_all add: matches_id)
  with Some nz show ?thesis
    by (simp add: upsert_def update_one_def count_id_def)
qed

lemma fold_insert_one_length:
  "length (docs (fold insert_one ds c)) = length (docs c) + length ds"
  by (induction ds arbitrary: c) (auto simp: insert_one_def)

text \<open>
  Claim C1, as the code has it. \<open>ProjectRepository.upsert\<close> is an upsert keyed by the
  project id: a second call with the same project leaves the collection as the first
  call left it, and the number of documents with that id is one when there was none
  before and unchanged otherwise. \<open>ImageRepository.save_many\<close> is a plain insert: each
  call on a non-empty list adds one new document per image.
\<close>

theorem upsert_converges_save_many_appends:
  "upsert p (upsert p c) = upsert p c
   \<and> count_id (proj_id p) (upsert p c)
       = (if count_id (proj_id p) c = 0 then 1 else count_id (proj_id p) c)
   \<and> (images \<noteq> [] \<longrightarrow>
        (\<exists>ic'. save_many images ic = Inr ic'
           \<and> length (docs ic') = length (docs ic) + length images))"
  using upsert_idem [of p c] upsert_count [of p c]
    fold_insert_one_length [of "map image_dict images" ic]
  by (simp add: save_many_def insert_many_def)

theorem save_many_duplicates_counterexample:
  "map_sum (\<lambda>x. x)
     (\<lambda>c. length (filter (\<lambda>d. d ''url'' = Some (BStr ''https://a.b/c.png'')
                             \<and> d ''project_id'' = Some (BInt 42)) (docs c)))
     (bind_exc (save_many [demo_image] empty_collection) (save_many [demo_image]))
   = Inr 2"
  by (simp add: bind_exc_def save_many_def insert_many_def insert_one_def image_dict_def
      demo_image_def empty_collection_def)

theorem upsert_converges_save_many_appends_witness:
  "[demo_image] \<noteq> []
   \<and> (\<exists>ic'. save_many [demo_image] empty_collection = Inr ic' \<and> length (docs ic') = 1)
   \<and> count_id 42 (upsert demo_project empty_collection) = 1
   \<and> count_id 42 (upsert demo_project (upsert demo_project empty_collection)) = 1"
proof -
  note th = upsert_converges_save_many_appends
    [of demo_project empty_collection "[demo_image]" empty_collection]
  have h: "[demo_image] \<noteq> []" by simp
  from th h have a: "\<exists>ic'. save_many [demo_image] empty_collection = Inr ic'
      \<and> length (docs ic') = 1"
    by (simp add: empty_collection_def)
  have z: "count_id 42 empty_collection = 0"
    by (simp add: count_id_def empty_collection_def)
  have i: "proj_id demo_project = 42"
    by (simp add: demo_project_def)
  from th [THEN conjunct2, THEN conjunct1] z i
  have b: "count_id 42 (upsert demo_project empty_collection) = 1"
    by simp
  from th [THEN conjunct1] b
  have c: "count_id 42 (upsert demo_project (upsert demo_project empty_collection)) = 1"
    by simp
  show ?thesis
    by (intro conjI) (rule h, rule a, rule b, rule c)
qed

end
